theory Spec2Isabelle
  imports
    Complex_Main
    "HOL-Library.AList"
    "HOL-Library.Char_ord"
    "HOL-Library.List_Lexorder"
begin

section \<open>The graph canvas of GraphView: data model\<close>

text \<open>
  The component under study is \<^verbatim>\<open>GraphView\<close> (with its four memoized render layers) and
  the batch-update handler of \<^verbatim>\<open>App.tsx\<close> that owns the notes list.

  Conventions of the embedding:
  \<^item> a JavaScript \<^verbatim>\<open>number\<close> is a \<^typ>\<open>real\<close>: rounding, infinities and NaN of IEEE doubles
    are not modelled;
  \<^item> a JavaScript string is a \<^typ>\<open>string\<close>, compared with \<open><\<close> lexicographically by
    character code, as the \<^verbatim>\<open><\<close> of JavaScript compares code units;
  \<^item> a \<^verbatim>\<open>Set<string>\<close> is the list of its members in insertion order, a
    \<^verbatim>\<open>Map<string, v>\<close> the association list of its entries in insertion order (the order
    in which \<^verbatim>\<open>forEach\<close> and \<^verbatim>\<open>Array.from\<close> visit them);
  \<^item> React state and refs are the fields of one record; a handler takes that record and
    returns the new one together with the calls it made on the callbacks it got as props.
\<close>

record Note =
  note_id :: string
  note_title :: string
  note_content :: string
  note_tags :: "string list"
  note_isFavorite :: bool
  note_createdAt :: real
  note_updatedAt :: real
  note_x :: real
  note_y :: real
  note_links :: "string list"

datatype ToolMode = PAN | SELECT | CONNECT | DEFAULT

record point =
  pt_x :: real
  pt_y :: real

record offset =
  off_dx :: real
  off_dy :: real

record box =
  box_x :: real
  box_y :: real
  box_w :: real
  box_h :: real

record gstate =
  viewBox :: box
  mode :: ToolMode
  isLayoutLocked :: bool
  selectedNodeIds :: "string list"
  activeNodeId :: "string option"
  linkSourceId :: "string option"
  activeDragIds :: "string list"
  dragOverrides :: "(string \<times> point) list"
  selectionBox :: "box option"
  selectionMenuPos :: "point option"
  pointerStartPos :: point
  isDraggingRef :: bool
  lastPanPoint :: point
  dragStartOffsets :: "(string \<times> offset) list"
  dragCommitRef :: bool
  wasNodeSelectedRef :: bool

text \<open>The state of a freshly mounted component (the arguments of \<^verbatim>\<open>useState\<close> and \<^verbatim>\<open>useRef\<close>).\<close>

definition initial_state :: gstate where
  "initial_state =
    \<lparr>viewBox = \<lparr>box_x = 0, box_y = 0, box_w = 1200, box_h = 800\<rparr>,
     mode = DEFAULT,
     isLayoutLocked = False,
     selectedNodeIds = [],
     activeNodeId = None,
     linkSourceId = None,
     activeDragIds = [],
     dragOverrides = [],
     selectionBox = None,
     selectionMenuPos = None,
     pointerStartPos = \<lparr>pt_x = 0, pt_y = 0\<rparr>,
     isDraggingRef = False,
     lastPanPoint = \<lparr>pt_x = 0, pt_y = 0\<rparr>,
     dragStartOffsets = [],
     dragCommitRef = False,
     wasNodeSelectedRef = False\<rparr>"

text \<open>What a handler reads from the browser: the pointer event, the screen transform of the
  SVG element (absent when the ref or the matrix is null) and the container element (absent
  when its ref is null).\<close>

record pevent =
  clientX :: real
  clientY :: real
  shiftKey :: bool

record ctm =
  ctm_a :: real
  ctm_d :: real
  ctm_e :: real
  ctm_f :: real

record container =
  clientWidth :: nat
  rect_width :: real
  rect_height :: real

record dom =
  svgCTM :: "ctm option"
  containerRef :: "container option"

text \<open>The calls a handler makes on the props \<^verbatim>\<open>onUpdateNotes\<close>, \<^verbatim>\<open>onDeleteNotes\<close>,
  \<^verbatim>\<open>onDuplicateNotes\<close> and \<^verbatim>\<open>onSelectNote\<close>, in the order made.\<close>

datatype call =
    UpdateNotes "Note list"
  | DeleteNotes "string list"
  | DuplicateNotes "string list"
  | SelectNote string

section \<open>Helpers\<close>

definition NODE_RADIUS :: real where
  "NODE_RADIUS = 30"

definition getLinkKey :: "string \<Rightarrow> string \<Rightarrow> string" where
  "getLinkKey a b = (if a < b then a @ ''-'' @ b else b @ ''-'' @ a)"

text \<open>\<^verbatim>\<open>notes.find(n => n.id === i)\<close>: the first note with that identifier.\<close>

definition find_note :: "Note list \<Rightarrow> string \<Rightarrow> Note option" where
  "find_note notes i = List.find (\<lambda>n. note_id n = i) notes"

text \<open>\<^verbatim>\<open>Set.prototype.add\<close>, \<^verbatim>\<open>delete\<close> and \<^verbatim>\<open>new Set(iterable)\<close> on insertion-ordered sets.\<close>

definition set_add :: "string \<Rightarrow> string list \<Rightarrow> string list" where
  "set_add i s = (if i \<in> set s then s else s @ [i])"

definition set_delete :: "string \<Rightarrow> string list \<Rightarrow> string list" where
  "set_delete i s = removeAll i s"

definition new_Set :: "string list \<Rightarrow> string list" where
  "new_Set xs = fold set_add xs []"

text \<open>A value of type \<^verbatim>\<open>string | null\<close> used as a condition: null and the empty string are
  falsy.\<close>

definition truthy :: "string option \<Rightarrow> bool" where
  "truthy v = (case v of None \<Rightarrow> False | Some i \<Rightarrow> i \<noteq> [])"

definition getPointerPosition :: "dom \<Rightarrow> pevent \<Rightarrow> point" where
  "getPointerPosition d e =
    (case svgCTM d of
       None \<Rightarrow> \<lparr>pt_x = 0, pt_y = 0\<rparr>
     | Some m \<Rightarrow> \<lparr>pt_x = (clientX e - ctm_e m) / ctm_a m, pt_y = (clientY e - ctm_f m) / ctm_d m\<rparr>)"

definition toScreenCoords :: "dom \<Rightarrow> box \<Rightarrow> real \<Rightarrow> real \<Rightarrow> point" where
  "toScreenCoords d vb svgX svgY =
    (case containerRef d of
       None \<Rightarrow> \<lparr>pt_x = 0, pt_y = 0\<rparr>
     | Some c \<Rightarrow>
         (let scaleX = rect_width c / box_w vb;
              scaleY = rect_height c / box_h vb
          in \<lparr>pt_x = (svgX - box_x vb) * scaleX, pt_y = (svgY - box_y vb) * scaleY\<rparr>))"

definition hypot :: "real \<Rightarrow> real \<Rightarrow> real" where
  "hypot a b = sqrt (a * a + b * b)"

section \<open>The store: \<^verbatim>\<open>handleBatchUpdateNotes\<close> of App\<close>

text \<open>\<^verbatim>\<open>new Map(updates.map(n => [n.id, n]))\<close> keeps, for an identifier given twice, the
  later entry; \<^verbatim>\<open>prev.map(n => updateMap.get(n.id) || n)\<close> then replaces every note that has
  an entry.\<close>

definition handleBatchUpdateNotes :: "Note list \<Rightarrow> Note list \<Rightarrow> Note list" where
  "handleBatchUpdateNotes updates prev =
    (let updateMap = map_of (rev (map (\<lambda>n. (note_id n, n)) updates))
     in map (\<lambda>n. case updateMap (note_id n) of Some u \<Rightarrow> u | None \<Rightarrow> n) prev)"

section \<open>Event handlers of GraphView\<close>

subsection \<open>Keyboard\<close>

text \<open>\<open>activeTag\<close> is \<^verbatim>\<open>document.activeElement?.tagName\<close>.\<close>

definition handleKeyDown :: "string option \<Rightarrow> string \<Rightarrow> gstate \<Rightarrow> gstate \<times> call list" where
  "handleKeyDown activeTag key s =
    (let del = (selectedNodeIds s \<noteq> [] \<and> (key = ''Delete'' \<or> key = ''Backspace''))
     in if del \<and> (activeTag = Some ''INPUT'' \<or> activeTag = Some ''TEXTAREA'') then (s, [])
        else
          (let s1 = (if del
                     then s\<lparr>selectedNodeIds := [], selectionMenuPos := None, activeNodeId := None\<rparr>
                     else s);
               cs = (if del then [DeleteNotes (selectedNodeIds s)] else [])
           in if key = ''Escape''
              then (s1\<lparr>selectedNodeIds := [], activeNodeId := None, selectionMenuPos := None,
                        linkSourceId := None, mode := DEFAULT\<rparr>, cs)
              else (s1, cs)))"

subsection \<open>The effect on a change of the notes prop\<close>

definition notesEffect :: "gstate \<Rightarrow> gstate" where
  "notesEffect s =
    (if dragCommitRef s
     then s\<lparr>dragOverrides := [], activeDragIds := [], dragCommitRef := False\<rparr>
     else s)"

subsection \<open>Wheel\<close>

definition onWheel :: "real \<Rightarrow> gstate \<Rightarrow> gstate" where
  "onWheel deltaY s =
    (let scale = (if deltaY > 0 then 1.05 else 0.95);
         prev = viewBox s
     in s\<lparr>viewBox := prev\<lparr>box_w := box_w prev * scale, box_h := box_h prev * scale\<rparr>\<rparr>)"

subsection \<open>Pointer events on the canvas\<close>

definition handlePointerDown :: "dom \<Rightarrow> pevent \<Rightarrow> gstate \<Rightarrow> gstate" where
  "handlePointerDown d e s =
    (let s1 = s\<lparr>activeNodeId := None, selectionMenuPos := None\<rparr>;
         s2 = (if mode s \<noteq> CONNECT then s1\<lparr>linkSourceId := None\<rparr> else s1);
         coords = getPointerPosition d e;
         s3 = s2\<lparr>pointerStartPos := \<lparr>pt_x = clientX e, pt_y = clientY e\<rparr>,
                 lastPanPoint := \<lparr>pt_x = clientX e, pt_y = clientY e\<rparr>,
                 isDraggingRef := False\<rparr>
     in if mode s = SELECT then
          (let s4 = s3\<lparr>selectionBox := Some \<lparr>box_x = pt_x coords, box_y = pt_y coords,
                                              box_w = 0, box_h = 0\<rparr>\<rparr>;
               s5 = (if \<not> shiftKey e then s4\<lparr>selectedNodeIds := []\<rparr> else s4)
           in s5\<lparr>isDraggingRef := True\<rparr>)
        else if mode s = PAN \<or> mode s = DEFAULT then
          (let s4 = s3\<lparr>isDraggingRef := True\<rparr>
           in if mode s = DEFAULT \<and> \<not> shiftKey e then s4\<lparr>selectedNodeIds := []\<rparr> else s4)
        else s3)"

text \<open>The body of \<^verbatim>\<open>activeDragIds.forEach\<close> in the drag branch of \<^verbatim>\<open>handlePointerMove\<close>; the
  accumulator is \<^verbatim>\<open>(newOverrides, changed)\<close>.\<close>

definition drag_step ::
  "point \<Rightarrow> (string \<times> offset) list \<Rightarrow> string \<Rightarrow> (string \<times> point) list \<times> bool
    \<Rightarrow> (string \<times> point) list \<times> bool" where
  "drag_step coords offsets i acc =
    (case map_of offsets i of
       None \<Rightarrow> acc
     | Some off \<Rightarrow>
         (AList.update i \<lparr>pt_x = pt_x coords - off_dx off, pt_y = pt_y coords - off_dy off\<rparr> (fst acc),
          True))"

definition handlePointerMove :: "dom \<Rightarrow> pevent \<Rightarrow> gstate \<Rightarrow> gstate" where
  "handlePointerMove d e s =
    (if \<not> isDraggingRef s then s
     else
       (let coords = getPointerPosition d e
        in if mode s = SELECT \<and> selectionBox s \<noteq> None then
             s\<lparr>selectionBox :=
                 map_option (\<lambda>prev. prev\<lparr>box_w := pt_x coords - box_x prev,
                                          box_h := pt_y coords - box_y prev\<rparr>) (selectionBox s)\<rparr>
           else if mode s = PAN \<or> (mode s = DEFAULT \<and> activeDragIds s = []) then
             (let dx = clientX e - pt_x (lastPanPoint s);
                  dy = clientY e - pt_y (lastPanPoint s);
                  clientW = (case containerRef d of
                               None \<Rightarrow> 1
                             | Some c \<Rightarrow> if clientWidth c = 0 then 1 else real (clientWidth c));
                  scaleX = box_w (viewBox s) / clientW;
                  prev = viewBox s
              in s\<lparr>viewBox := prev\<lparr>box_x := box_x prev - dx * scaleX,
                                     box_y := box_y prev - dy * scaleX\<rparr>,
                    lastPanPoint := \<lparr>pt_x = clientX e, pt_y = clientY e\<rparr>\<rparr>)
           else if activeDragIds s \<noteq> [] \<and> \<not> isLayoutLocked s then
             (let r = fold (drag_step coords (dragStartOffsets s)) (activeDragIds s)
                        (dragOverrides s, False)
              in if snd r then s\<lparr>dragOverrides := fst r\<rparr> else s)
           else s))"

text \<open>The body of \<^verbatim>\<open>dragOverrides.forEach\<close> in \<^verbatim>\<open>handlePointerUp\<close>; the accumulator is
  \<^verbatim>\<open>updates\<close>.\<close>

definition commit_step :: "Note list \<Rightarrow> string \<times> point \<Rightarrow> Note list \<Rightarrow> Note list" where
  "commit_step notes ip updates =
    (case find_note notes (fst ip) of
       None \<Rightarrow> updates
     | Some n \<Rightarrow> updates @ [n\<lparr>note_x := pt_x (snd ip), note_y := pt_y (snd ip)\<rparr>])"

definition commit_updates :: "Note list \<Rightarrow> (string \<times> point) list \<Rightarrow> Note list" where
  "commit_updates notes overrides = fold (commit_step notes) overrides []"

text \<open>Lines 386 to 389: the selection box with its corner and extent normalised.\<close>

definition normalizeBox :: "box \<Rightarrow> box" where
  "normalizeBox b =
    \<lparr>box_x = min (box_x b) (box_x b + box_w b),
     box_y = min (box_y b) (box_y b + box_h b),
     box_w = \<bar>box_w b\<bar>,
     box_h = \<bar>box_h b\<bar>\<rparr>"

text \<open>The body of \<^verbatim>\<open>notes.forEach\<close> in the SELECT branch of \<^verbatim>\<open>handlePointerUp\<close>; \<open>r\<close> is the
  normalised box, the accumulator is \<^verbatim>\<open>newSelection\<close>.\<close>

definition select_step :: "box \<Rightarrow> Note \<Rightarrow> string list \<Rightarrow> string list" where
  "select_step r n newSelection =
    (let closestX = max (box_x r) (min (note_x n) (box_x r + box_w r));
         closestY = max (box_y r) (min (note_y n) (box_y r + box_h r));
         dx = note_x n - closestX;
         dy = note_y n - closestY
     in if dx * dx + dy * dy < NODE_RADIUS * NODE_RADIUS
        then set_add (note_id n) newSelection
        else newSelection)"

definition handlePointerUp :: "dom \<Rightarrow> Note list \<Rightarrow> pevent \<Rightarrow> gstate \<Rightarrow> gstate \<times> call list" where
  "handlePointerUp d notes e s =
    (let s1 = s\<lparr>isDraggingRef := False\<rparr>;
         updates = commit_updates notes (dragOverrides s);
         s2 = (if activeDragIds s \<noteq> [] then
                 (if updates \<noteq> [] then s1\<lparr>dragCommitRef := True\<rparr>
                  else s1\<lparr>activeDragIds := [], dragOverrides := []\<rparr>)\<lparr>dragStartOffsets := []\<rparr>
               else s1);
         cs = (if activeDragIds s \<noteq> [] \<and> updates \<noteq> [] then [UpdateNotes updates] else [])
     in case selectionBox s of
          None \<Rightarrow> (s2, cs)
        | Some sb \<Rightarrow>
            if mode s \<noteq> SELECT then (s2, cs)
            else
              (let newSelection =
                     fold (select_step (normalizeBox sb)) notes
                       (new_Set (if shiftKey e then selectedNodeIds s else []));
                   s3 = s2\<lparr>selectedNodeIds := newSelection, selectionBox := None\<rparr>;
                   selectedNotes = filter (\<lambda>n. note_id n \<in> set newSelection) notes
               in if newSelection \<noteq> [] \<and> selectedNotes \<noteq> [] then
                    (let avgX = sum_list (map note_x selectedNotes) / real (length selectedNotes);
                         avgY = sum_list (map note_y selectedNotes) / real (length selectedNotes)
                     in (s3\<lparr>selectionMenuPos := Some (toScreenCoords d (viewBox s) avgX avgY)\<rparr>, cs))
                  else (s3, cs)))"

subsection \<open>Pointer events on a node\<close>

text \<open>The body of \<^verbatim>\<open>nodesToDrag.forEach\<close> in \<^verbatim>\<open>handleNodePointerDown\<close>; the accumulator is
  \<^verbatim>\<open>(offsets, overrides, newActiveDragIds)\<close>.\<close>

definition capture_step ::
  "Note list \<Rightarrow> point \<Rightarrow> string
    \<Rightarrow> (string \<times> offset) list \<times> (string \<times> point) list \<times> string list
    \<Rightarrow> (string \<times> offset) list \<times> (string \<times> point) list \<times> string list" where
  "capture_step notes coords i acc =
    (case find_note notes i of
       None \<Rightarrow> acc
     | Some n \<Rightarrow>
         (case acc of (offsets, overrides, newActiveDragIds) \<Rightarrow>
            (AList.update i \<lparr>off_dx = pt_x coords - note_x n, off_dy = pt_y coords - note_y n\<rparr> offsets,
             AList.update i \<lparr>pt_x = note_x n, pt_y = note_y n\<rparr> overrides,
             set_add i newActiveDragIds)))"

definition handleNodePointerDown ::
  "dom \<Rightarrow> Note list \<Rightarrow> pevent \<Rightarrow> Note \<Rightarrow> gstate \<Rightarrow> gstate \<times> call list" where
  "handleNodePointerDown d notes e n s =
    (let s0 = s\<lparr>wasNodeSelectedRef := (note_id n \<in> set (selectedNodeIds s))\<rparr>
     in if mode s = CONNECT then
          (if truthy (linkSourceId s) \<and> linkSourceId s \<noteq> Some (note_id n) then
             (let cs = (case find_note notes (the (linkSourceId s)) of
                          None \<Rightarrow> []
                        | Some source \<Rightarrow>
                            (let newLinks =
                                   (if note_id n \<in> set (note_links source)
                                    then filter (\<lambda>l. l \<noteq> note_id n) (note_links source)
                                    else note_links source @ [note_id n])
                             in [UpdateNotes [source\<lparr>note_links := newLinks\<rparr>]]))
              in (s0\<lparr>linkSourceId := None\<rparr>, cs))
           else (s0\<lparr>linkSourceId := Some (note_id n)\<rparr>, []))
        else
          (let newSelection =
                 (if note_id n \<notin> set (selectedNodeIds s)
                  then (if \<not> shiftKey e then new_Set [note_id n]
                        else set_add (note_id n) (selectedNodeIds s))
                  else selectedNodeIds s);
               s1 = s0\<lparr>selectedNodeIds := newSelection, selectionMenuPos := None,
                       activeNodeId := None\<rparr>
           in if \<not> isLayoutLocked s \<and> mode s \<noteq> PAN \<and> mode s \<noteq> SELECT then
                (let coords = getPointerPosition d e;
                     nodesToDrag = (if note_id n \<in> set newSelection then newSelection
                                    else [note_id n]);
                     r = fold (capture_step notes coords) nodesToDrag ([], [], [])
                 in (s1\<lparr>pointerStartPos := \<lparr>pt_x = clientX e, pt_y = clientY e\<rparr>,
                         dragStartOffsets := fst r,
                         activeDragIds := snd (snd r),
                         dragOverrides := fst (snd r),
                         isDraggingRef := True\<rparr>, []))
              else (s1, [])))"

definition handleNodeDoubleClick :: "Note \<Rightarrow> gstate \<Rightarrow> gstate" where
  "handleNodeDoubleClick n s = s\<lparr>activeNodeId := Some (note_id n)\<rparr>"

text \<open>\<^verbatim>\<open>handleNodePointerUp\<close> as the source declares it. Both tests read the
  \<^verbatim>\<open>selectedNodeIds\<close> of the render the callback closed over, so the second test does not
  see the removal made by the first.\<close>

definition handleNodePointerUp ::
  "dom \<Rightarrow> Note list \<Rightarrow> pevent \<Rightarrow> string \<Rightarrow> gstate \<Rightarrow> gstate" where
  "handleNodePointerUp d notes e noteId s =
    (let dist = hypot (clientX e - pt_x (pointerStartPos s)) (clientY e - pt_y (pointerStartPos s))
     in if dist < 5 \<and> mode s \<noteq> CONNECT then
          (let s1 = (if wasNodeSelectedRef s \<and> noteId \<in> set (selectedNodeIds s) \<and> shiftKey e
                     then s\<lparr>selectedNodeIds := set_delete noteId (selectedNodeIds s)\<rparr>
                     else s)
           in if length (selectedNodeIds s) > 1 \<and> noteId \<in> set (selectedNodeIds s) then
                (case find_note notes noteId of
                   None \<Rightarrow> s1
                 | Some n \<Rightarrow>
                     s1\<lparr>selectionMenuPos := Some (toScreenCoords d (viewBox s) (note_x n) (note_y n))\<rparr>)
              else s1)
        else s)"

section \<open>Render layers\<close>

text \<open>Of an edge element the model keeps the React key and the four line coordinates, and
  records in \<open>edge_source\<close> and \<open>edge_target\<close> the link it was drawn for (the identifier of
  the note whose adjacency list was read, and the entry read). Of a node element it keeps the
  key and the translation; selection styling is left out.\<close>

record edge_el =
  edge_key :: string
  edge_source :: string
  edge_target :: string
  edge_x1 :: real
  edge_y1 :: real
  edge_x2 :: real
  edge_y2 :: real

record node_el =
  node_key :: string
  node_tx :: real
  node_ty :: real

text \<open>The body of the inner \<^verbatim>\<open>forEach\<close> of \<^verbatim>\<open>StaticConnectionsLayer\<close>; the accumulator is
  \<^verbatim>\<open>(processed, els)\<close>.\<close>

definition static_conn_step ::
  "Note list \<Rightarrow> string list \<Rightarrow> Note \<Rightarrow> string \<Rightarrow> string list \<times> edge_el list
    \<Rightarrow> string list \<times> edge_el list" where
  "static_conn_step notes activeIds source targetId acc =
    (let key = getLinkKey (note_id source) targetId
     in if key \<in> set (fst acc) then acc
        else
          (let processed = set_add key (fst acc)
           in case find_note notes targetId of
                None \<Rightarrow> (processed, snd acc)
              | Some target \<Rightarrow>
                  if note_id source \<in> set activeIds \<or> note_id target \<in> set activeIds
                  then (processed, snd acc)
                  else (processed,
                        snd acc @
                          [\<lparr>edge_key = key, edge_source = note_id source, edge_target = targetId,
                            edge_x1 = note_x source, edge_y1 = note_y source,
                            edge_x2 = note_x target, edge_y2 = note_y target\<rparr>])))"

definition StaticConnectionsLayer :: "Note list \<Rightarrow> string list \<Rightarrow> edge_el list" where
  "StaticConnectionsLayer notes activeIds =
    snd (fold (\<lambda>source acc. fold (static_conn_step notes activeIds source) (note_links source) acc)
           notes ([], []))"

definition getPos :: "(string \<times> point) list \<Rightarrow> string \<Rightarrow> Note option \<Rightarrow> point" where
  "getPos overrides i n =
    (case map_of overrides i of
       Some override \<Rightarrow> override
     | None \<Rightarrow> (case n of Some m \<Rightarrow> \<lparr>pt_x = note_x m, pt_y = note_y m\<rparr>
                         | None \<Rightarrow> \<lparr>pt_x = 0, pt_y = 0\<rparr>))"

definition dynamic_conn_step ::
  "Note list \<Rightarrow> (string \<times> point) list \<Rightarrow> string list \<Rightarrow> Note \<Rightarrow> string
    \<Rightarrow> string list \<times> edge_el list \<Rightarrow> string list \<times> edge_el list" where
  "dynamic_conn_step notes overrides activeIds source targetId acc =
    (case find_note notes targetId of
       None \<Rightarrow> acc
     | Some target \<Rightarrow>
         if note_id source \<notin> set activeIds \<and> targetId \<notin> set activeIds then acc
         else
           (let key = getLinkKey (note_id source) targetId
            in if key \<in> set (fst acc) then acc
               else
                 (let sPos = getPos overrides (note_id source) (Some source);
                      tPos = getPos overrides targetId (Some target)
                  in (set_add key (fst acc),
                      snd acc @
                        [\<lparr>edge_key = key, edge_source = note_id source, edge_target = targetId,
                          edge_x1 = pt_x sPos, edge_y1 = pt_y sPos,
                          edge_x2 = pt_x tPos, edge_y2 = pt_y tPos\<rparr>]))))"

text \<open>The layer returns \<^verbatim>\<open>null\<close>, no element at all, when nothing is being dragged.\<close>

definition DynamicConnectionsLayer ::
  "Note list \<Rightarrow> (string \<times> point) list \<Rightarrow> string list \<Rightarrow> edge_el list" where
  "DynamicConnectionsLayer notes overrides activeIds =
    (if activeIds = [] then []
     else snd (fold (\<lambda>source acc.
                  fold (dynamic_conn_step notes overrides activeIds source) (note_links source) acc)
                notes ([], [])))"

definition StaticNodesLayer :: "Note list \<Rightarrow> string list \<Rightarrow> node_el list" where
  "StaticNodesLayer notes activeIds =
    List.map_filter
      (\<lambda>n. if note_id n \<in> set activeIds then None
           else Some \<lparr>node_key = note_id n, node_tx = note_x n, node_ty = note_y n\<rparr>) notes"

definition DynamicNodesLayer :: "Note list \<Rightarrow> (string \<times> point) list \<Rightarrow> node_el list" where
  "DynamicNodesLayer notes overrides =
    (if overrides = [] then []
     else List.map_filter
            (\<lambda>n. case map_of overrides (note_id n) of
                   None \<Rightarrow> None
                 | Some pos \<Rightarrow> Some \<lparr>node_key = note_id n, node_tx = pt_x pos, node_ty = pt_y pos\<rparr>)
            notes)"

text \<open>What the SVG element shows of the notes in a given state: the connection layers, then
  the node layers, as the JSX lists them.\<close>

definition render_connections :: "Note list \<Rightarrow> gstate \<Rightarrow> edge_el list" where
  "render_connections notes s =
    StaticConnectionsLayer notes (activeDragIds s) @
    DynamicConnectionsLayer notes (dragOverrides s) (activeDragIds s)"

definition render_nodes :: "Note list \<Rightarrow> gstate \<Rightarrow> node_el list" where
  "render_nodes notes s =
    StaticNodesLayer notes (activeDragIds s) @ DynamicNodesLayer notes (dragOverrides s)"

section \<open>Event dispatch\<close>

text \<open>
  The events the rendered tree listens to. A pointer-down on a node stops propagation, so
  only \<^verbatim>\<open>handleNodePointerDown\<close> runs. The node groups of both node layers carry
  \<^verbatim>\<open>onPointerDown\<close> and \<^verbatim>\<open>onDoubleClick\<close> and nothing else: a pointer-move or pointer-up
  over a node bubbles to the SVG element and runs \<^verbatim>\<open>handlePointerMove\<close> or
  \<^verbatim>\<open>handlePointerUp\<close>. \<^verbatim>\<open>handleNodePointerUp\<close> is passed to no element.
  The toolbar, the bulk menu and the detail panel lie outside the SVG element; the menu and
  the panel exist only while their render condition holds. \<open>ToolbarMode\<close> stands for the
  Pan, Selection and Box-select buttons (the Connect button is a toggle of its own, so
  \<open>ToolbarMode CONNECT\<close> is no event of the component and changes nothing).
\<close>

datatype event =
    CanvasPointerDown pevent
  | NodePointerDown pevent Note
  | PointerMove pevent
  | PointerUp pevent
  | NodeDoubleClick Note
  | Wheel real
  | KeyDown "string option" string
  | ToolbarLock
  | ToolbarMode ToolMode
  | ToolbarConnect
  | MenuCopy
  | MenuDelete
  | DetailClose
  | DetailEdit
  | DetailDelete

definition activeNode :: "Note list \<Rightarrow> gstate \<Rightarrow> Note option" where
  "activeNode notes s =
    (if truthy (activeNodeId s) then find_note notes (the (activeNodeId s)) else None)"

definition detail_shown :: "Note list \<Rightarrow> gstate \<Rightarrow> bool" where
  "detail_shown notes s = (activeNode notes s \<noteq> None \<and> selectionMenuPos s = None)"

fun dispatch :: "dom \<Rightarrow> Note list \<Rightarrow> event \<Rightarrow> gstate \<Rightarrow> gstate \<times> call list" where
  "dispatch d notes (CanvasPointerDown e) s = (handlePointerDown d e s, [])"
| "dispatch d notes (NodePointerDown e n) s = handleNodePointerDown d notes e n s"
| "dispatch d notes (PointerMove e) s = (handlePointerMove d e s, [])"
| "dispatch d notes (PointerUp e) s = handlePointerUp d notes e s"
| "dispatch d notes (NodeDoubleClick n) s = (handleNodeDoubleClick n s, [])"
| "dispatch d notes (Wheel deltaY) s = (onWheel deltaY s, [])"
| "dispatch d notes (KeyDown activeTag key) s = handleKeyDown activeTag key s"
| "dispatch d notes ToolbarLock s = (s\<lparr>isLayoutLocked := \<not> isLayoutLocked s\<rparr>, [])"
| "dispatch d notes (ToolbarMode m) s =
     (if m = CONNECT then (s, []) else (s\<lparr>mode := m\<rparr>, []))"
| "dispatch d notes ToolbarConnect s =
     (s\<lparr>mode := (if mode s = CONNECT then DEFAULT else CONNECT), linkSourceId := None\<rparr>, [])"
| "dispatch d notes MenuCopy s =
     (if selectionMenuPos s = None then (s, [])
      else (s\<lparr>selectionMenuPos := None\<rparr>, [DuplicateNotes (selectedNodeIds s)]))"
| "dispatch d notes MenuDelete s =
     (if selectionMenuPos s = None then (s, [])
      else (s\<lparr>selectionMenuPos := None, selectedNodeIds := []\<rparr>,
            [DeleteNotes (selectedNodeIds s)]))"
| "dispatch d notes DetailClose s =
     (if detail_shown notes s then (s\<lparr>activeNodeId := None\<rparr>, []) else (s, []))"
| "dispatch d notes DetailEdit s =
     (if detail_shown notes s then (s, [SelectNote (note_id (the (activeNode notes s)))])
      else (s, []))"
| "dispatch d notes DetailDelete s =
     (if detail_shown notes s
      then (s\<lparr>activeNodeId := None\<rparr>, [DeleteNotes [note_id (the (activeNode notes s))]])
      else (s, []))"

text \<open>A run of events over an unchanged notes list (the calls made are dropped).\<close>

definition run :: "dom \<Rightarrow> Note list \<Rightarrow> event list \<Rightarrow> gstate \<Rightarrow> gstate" where
  "run d notes evs s = fold (\<lambda>ev st. fst (dispatch d notes ev st)) evs s"

section \<open>Sample inputs\<close>

text \<open>A surface 600 device pixels wide and 400 high whose SVG transform is the identity, and
  pointer events at the origin and 10 pixels to its right.\<close>

definition surface600 :: dom where
  "surface600 =
    \<lparr>svgCTM = Some \<lparr>ctm_a = 1, ctm_d = 1, ctm_e = 0, ctm_f = 0\<rparr>,
     containerRef = Some \<lparr>clientWidth = 600, rect_width = 600, rect_height = 400\<rparr>\<rparr>"

definition pointer_at :: "real \<Rightarrow> real \<Rightarrow> bool \<Rightarrow> pevent" where
  "pointer_at px py shift = \<lparr>clientX = px, clientY = py, shiftKey = shift\<rparr>"

definition sample_note :: "string \<Rightarrow> real \<Rightarrow> real \<Rightarrow> string list \<Rightarrow> Note" where
  "sample_note i px py ls =
    \<lparr>note_id = i, note_title = [], note_content = [], note_tags = [], note_isFavorite = False,
     note_createdAt = 0, note_updatedAt = 0, note_x = px, note_y = py, note_links = ls\<rparr>"

section \<open>Notions used to state the properties\<close>

text \<open>The circle-against-rectangle test in the words of the specification: the box is taken
  with its two corners in order, the centre of the node is clamped to it, and the node is hit
  when the clamped point is less than the node radius (30) away.\<close>

definition within_radius_of_box :: "box \<Rightarrow> Note \<Rightarrow> bool" where
  "within_radius_of_box b n =
    (let x0 = min (box_x b) (box_x b + box_w b); x1 = max (box_x b) (box_x b + box_w b);
         y0 = min (box_y b) (box_y b + box_h b); y1 = max (box_y b) (box_y b + box_h b);
         cx = (if note_x n < x0 then x0 else if x1 < note_x n then x1 else note_x n);
         cy = (if note_y n < y0 then y0 else if y1 < note_y n then y1 else note_y n)
     in (note_x n - cx)\<^sup>2 + (note_y n - cy)\<^sup>2 < 30\<^sup>2)"

text \<open>A note snapshot with its two coordinates replaced, and the batch a drag commit is
  expected to send: one such snapshot for every override whose identifier is in the list.\<close>

definition moved_to :: "Note \<Rightarrow> point \<Rightarrow> Note" where
  "moved_to n p = n\<lparr>note_x := pt_x p, note_y := pt_y p\<rparr>"

definition committed_batch :: "Note list \<Rightarrow> (string \<times> point) list \<Rightarrow> Note list" where
  "committed_batch ns ov =
    map (\<lambda>ip. moved_to (the (find_note ns (fst ip))) (snd ip))
      (filter (\<lambda>ip. find_note ns (fst ip) \<noteq> None) ov)"

text \<open>An adjacency list with one identifier toggled.\<close>

definition toggled_links :: "string \<Rightarrow> string list \<Rightarrow> string list" where
  "toggled_links b ls = (if b \<in> set ls then filter (\<lambda>l. l \<noteq> b) ls else ls @ [b])"

text \<open>A pointer-down on a node, followed, when it called \<^verbatim>\<open>onUpdateNotes\<close>, by the store
  applying the batch and the component observing the new list. (A pointer-down on a node
  makes no other call.)\<close>

definition node_down_settled ::
  "dom \<Rightarrow> pevent \<Rightarrow> Note \<Rightarrow> Note list \<times> gstate \<Rightarrow> Note list \<times> gstate" where
  "node_down_settled d e n st =
    (case handleNodePointerDown d (fst st) e n (snd st) of
       (s', cs) \<Rightarrow>
         (case cs of
            UpdateNotes ups # _ \<Rightarrow> (handleBatchUpdateNotes ups (fst st), notesEffect s')
          | _ \<Rightarrow> (fst st, s')))"

fun is_node_pointer_down :: "event \<Rightarrow> bool" where
  "is_node_pointer_down (NodePointerDown e n) = True"
| "is_node_pointer_down ev = False"

fun is_pointer_up :: "event \<Rightarrow> bool" where
  "is_pointer_up (PointerUp e) = True"
| "is_pointer_up ev = False"

text \<open>The three parts of a drag session range over the same identifiers.\<close>

definition session_consistent :: "gstate \<Rightarrow> bool" where
  "session_consistent s =
    (set (map fst (dragOverrides s)) = set (activeDragIds s)
     \<and> set (map fst (dragStartOffsets s)) = set (activeDragIds s))"

text \<open>A drag commit has been sent and the notes list has not changed since.\<close>

definition commit_pending :: "Note list \<Rightarrow> gstate \<Rightarrow> bool" where
  "commit_pending ns s =
    (activeDragIds s \<noteq> [] \<and> committed_batch ns (dragOverrides s) \<noteq> []
     \<and> dragStartOffsets s = [] \<and> dragCommitRef s)"

text \<open>The node element of a note at its stored position, and at its override if it has one.\<close>

definition node_at :: "Note \<Rightarrow> node_el" where
  "node_at n = \<lparr>node_key = note_id n, node_tx = note_x n, node_ty = note_y n\<rparr>"

definition override_at :: "(string \<times> point) list \<Rightarrow> Note \<Rightarrow> node_el" where
  "override_at ov n =
    (case map_of ov (note_id n) of
       None \<Rightarrow> node_at n
     | Some p \<Rightarrow> \<lparr>node_key = note_id n, node_tx = pt_x p, node_ty = pt_y p\<rparr>)"

text \<open>The links of a notes list in the order the connection layers visit them: for each
  note in turn, each entry of its adjacency list. The key of a link, and the step the two
  layers share: a link whose key was seen is skipped, otherwise its key is recorded and the
  elements \<open>g\<close> draws for it are appended.\<close>

definition link_pairs :: "Note list \<Rightarrow> (Note \<times> string) list" where
  "link_pairs ns = concat (map (\<lambda>s. map (Pair s) (note_links s)) ns)"

definition pair_key :: "Note \<times> string \<Rightarrow> string" where
  "pair_key p = getLinkKey (note_id (fst p)) (snd p)"

definition dedup_step ::
  "(Note \<times> string \<Rightarrow> edge_el list) \<Rightarrow> Note \<times> string \<Rightarrow> string list \<times> edge_el list
     \<Rightarrow> string list \<times> edge_el list" where
  "dedup_step g p acc =
    (if pair_key p \<in> set (fst acc) then acc
     else (set_add (pair_key p) (fst acc), snd acc @ g p))"

definition static_edge :: "Note list \<Rightarrow> string list \<Rightarrow> Note \<times> string \<Rightarrow> edge_el list" where
  "static_edge ns act p =
    (case find_note ns (snd p) of
       None \<Rightarrow> []
     | Some target \<Rightarrow>
         if note_id (fst p) \<in> set act \<or> note_id target \<in> set act then []
         else [\<lparr>edge_key = pair_key p, edge_source = note_id (fst p), edge_target = snd p,
                edge_x1 = note_x (fst p), edge_y1 = note_y (fst p),
                edge_x2 = note_x target, edge_y2 = note_y target\<rparr>])"

definition dynamic_edge ::
  "Note list \<Rightarrow> (string \<times> point) list \<Rightarrow> Note \<times> string \<Rightarrow> edge_el list" where
  "dynamic_edge ns ov p =
    [\<lparr>edge_key = pair_key p, edge_source = note_id (fst p), edge_target = snd p,
      edge_x1 = pt_x (getPos ov (note_id (fst p)) (Some (fst p))),
      edge_y1 = pt_y (getPos ov (note_id (fst p)) (Some (fst p))),
      edge_x2 = pt_x (getPos ov (snd p) (find_note ns (snd p))),
      edge_y2 = pt_y (getPos ov (snd p) (find_note ns (snd p)))\<rparr>]"

definition dynamic_guard :: "Note list \<Rightarrow> string list \<Rightarrow> Note \<times> string \<Rightarrow> bool" where
  "dynamic_guard ns act p =
    (find_note ns (snd p) \<noteq> None \<and> (note_id (fst p) \<in> set act \<or> snd p \<in> set act))"

text \<open>Four notes with two links, \<open>a \<rightarrow> b-c\<close> and \<open>a-b \<rightarrow> c\<close>; and two unlinked notes for
  click gestures.\<close>

definition clash_notes :: "Note list" where
  "clash_notes =
    [sample_note ''a'' 0 0 [''b-c''], sample_note ''b-c'' 100 0 [],
     sample_note ''a-b'' 0 100 [''c''], sample_note ''c'' 100 100 []]"

definition click_notes :: "Note list" where
  "click_notes = [sample_note ''a'' 0 0 [], sample_note ''b'' 100 0 []]"

section \<open>Zoom and pan\<close>

text \<open>
  Claim C10. A wheel event changes nothing but the width and the height of the viewport, each
  multiplied by 1.05 when the wheel delta is positive and by 0.95 otherwise. The origin of the
  viewport and every other field of the component state stay as they were, and no callback
  is called: the zoom is anchored at the top-left corner of the viewport.
\<close>

theorem wheel_scales_extent_only:
  "fst (dispatch d ns (Wheel deltaY) s)\<lparr>viewBox := viewBox s\<rparr> = s
   \<and> snd (dispatch d ns (Wheel deltaY) s) = []
   \<and> box_x (viewBox (fst (dispatch d ns (Wheel deltaY) s))) = box_x (viewBox s)
   \<and> box_y (viewBox (fst (dispatch d ns (Wheel deltaY) s))) = box_y (viewBox s)
   \<and> box_w (viewBox (fst (dispatch d ns (Wheel deltaY) s)))
       = box_w (viewBox s) * (if 0 < deltaY then 1.05 else 0.95)
   \<and> box_h (viewBox (fst (dispatch d ns (Wheel deltaY) s)))
       = box_h (viewBox s) * (if 0 < deltaY then 1.05 else 0.95)"
  by (simp add: onWheel_def Let_def)

theorem wheel_scales_extent_only_witness:
  "viewBox (fst (dispatch surface600 [] (Wheel 3) initial_state))
     = \<lparr>box_x = 0, box_y = 0, box_w = 1260, box_h = 840\<rparr>
   \<and> viewBox (fst (dispatch surface600 [] (Wheel (- 3)) initial_state))
     = \<lparr>box_x = 0, box_y = 0, box_w = 1140, box_h = 760\<rparr>"
  using wheel_scales_extent_only [where d = surface600 and ns = "[]" and deltaY = 3
          and s = initial_state]
        wheel_scales_extent_only [where d = surface600 and ns = "[]" and deltaY = "- 3"
          and s = initial_state]
  by (simp add: initial_state_def onWheel_def)

text \<open>
  Claim C6. A pointer-move that pans (a gesture is active, and the mode is Pan, or Default
  with nothing being dragged) over a surface of positive width moves the origin of the
  viewport, on both axes, by the device-pixel delta of the pointer times the one ratio
  viewport width / surface width, and leaves the extent alone. With a viewport 1200 wide over
  a surface of 600 pixels a 10-pixel move pans by exactly 20 canvas units, and from a state
  that differs only in having half the viewport width the same move pans half as far.
\<close>

theorem pan_move_scaled_by_width_ratio:
  assumes "isDraggingRef s"
    and "mode s = PAN \<or> (mode s = DEFAULT \<and> activeDragIds s = [])"
    and "containerRef d = Some c" and "0 < clientWidth c"
  shows "box_x (viewBox (handlePointerMove d e s))
           = box_x (viewBox s)
             - (clientX e - pt_x (lastPanPoint s)) * (box_w (viewBox s) / real (clientWidth c))
    \<and> box_y (viewBox (handlePointerMove d e s))
           = box_y (viewBox s)
             - (clientY e - pt_y (lastPanPoint s)) * (box_w (viewBox s) / real (clientWidth c))
    \<and> box_w (viewBox (handlePointerMove d e s)) = box_w (viewBox s)
    \<and> box_h (viewBox (handlePointerMove d e s)) = box_h (viewBox s)
    \<and> (box_w (viewBox s) = 1200 \<and> clientWidth c = 600 \<and> clientX e - pt_x (lastPanPoint s) = 10
          \<longrightarrow> box_x (viewBox s) - box_x (viewBox (handlePointerMove d e s)) = 20)
    \<and> box_x (viewBox s)
           - box_x (viewBox (handlePointerMove d e
                      (s\<lparr>viewBox := (viewBox s)\<lparr>box_w := box_w (viewBox s) / 2\<rparr>\<rparr>)))
         = (box_x (viewBox s) - box_x (viewBox (handlePointerMove d e s))) / 2
    \<and> box_y (viewBox s)
           - box_y (viewBox (handlePointerMove d e
                      (s\<lparr>viewBox := (viewBox s)\<lparr>box_w := box_w (viewBox s) / 2\<rparr>\<rparr>)))
         = (box_y (viewBox s) - box_y (viewBox (handlePointerMove d e s))) / 2"
  using assms by (auto simp add: handlePointerMove_def Let_def)

theorem pan_move_scaled_by_width_ratio_witness:
  "isDraggingRef (initial_state\<lparr>isDraggingRef := True\<rparr>)
   \<and> mode (initial_state\<lparr>isDraggingRef := True\<rparr>) = DEFAULT
   \<and> activeDragIds (initial_state\<lparr>isDraggingRef := True\<rparr>) = []
   \<and> box_w (viewBox (initial_state\<lparr>isDraggingRef := True\<rparr>)) = 1200
   \<and> containerRef surface600
        = Some \<lparr>clientWidth = 600, rect_width = 600, rect_height = 400\<rparr>
   \<and> box_x (viewBox (initial_state\<lparr>isDraggingRef := True\<rparr>))
       - box_x (viewBox (handlePointerMove surface600 (pointer_at 10 0 False)
                  (initial_state\<lparr>isDraggingRef := True\<rparr>))) = 20"
proof -
  let ?s = "initial_state\<lparr>isDraggingRef := True\<rparr>"
  let ?c = "\<lparr>clientWidth = 600, rect_width = 600, rect_height = 400\<rparr>"
  have h1: "isDraggingRef ?s" by simp
  have h2: "mode ?s = PAN \<or> (mode ?s = DEFAULT \<and> activeDragIds ?s = [])"
    by (simp add: initial_state_def)
  have h3: "containerRef surface600 = Some ?c" by (simp add: surface600_def)
  have h4: "0 < clientWidth ?c" by simp
  have h5: "box_w (viewBox ?s) = 1200 \<and> clientWidth ?c = 600
            \<and> clientX (pointer_at 10 0 False) - pt_x (lastPanPoint ?s) = 10"
    by (simp add: initial_state_def pointer_at_def)
  from pan_move_scaled_by_width_ratio [OF h1 h2 h3 h4, of "pointer_at 10 0 False"] h5
  have "box_x (viewBox ?s)
         - box_x (viewBox (handlePointerMove surface600 (pointer_at 10 0 False) ?s)) = 20"
    by blast
  with h2 h3 show ?thesis by (simp add: initial_state_def)
qed

section \<open>Keyboard\<close>

text \<open>
  Claim C9 as the specification states it fails: the test of the focused element guards the
  Delete/Backspace branch only. With an \<^verbatim>\<open>INPUT\<close> element focused, Escape still clears the
  selection and the link-source and resets the mode.
\<close>

theorem escape_fires_with_input_focused:
  "handleKeyDown (Some ''INPUT'') ''Escape''
     (initial_state\<lparr>selectedNodeIds := [''n1''], linkSourceId := Some ''n1'', mode := CONNECT\<rparr>)
   = (initial_state, [])
   \<and> initial_state\<lparr>selectedNodeIds := [''n1''], linkSourceId := Some ''n1'', mode := CONNECT\<rparr>
       \<noteq> initial_state"
proof -
  have "mode (initial_state\<lparr>selectedNodeIds := [''n1''], linkSourceId := Some ''n1'',
                 mode := CONNECT\<rparr>) \<noteq> mode initial_state"
    by (simp add: initial_state_def)
  then show ?thesis
    by (auto simp add: handleKeyDown_def initial_state_def)
qed

text \<open>
  Claim C9, amended. Delete or Backspace with a non-empty selection does nothing while an
  \<^verbatim>\<open>INPUT\<close> or \<^verbatim>\<open>TEXTAREA\<close> element has focus; otherwise it asks for the batch deletion of
  the selected identifiers, once, and clears the selection set, the contextual menu and the
  active-detail state. Escape, whatever has focus, clears the selection set, the
  active-detail view, the contextual menu and the link-source and resets the Tool Mode to
  Default, calling nothing.
\<close>

theorem key_handling:
  "(selectedNodeIds s \<noteq> [] \<and> (key = ''Delete'' \<or> key = ''Backspace'')
      \<and> (tag = Some ''INPUT'' \<or> tag = Some ''TEXTAREA'')
      \<longrightarrow> dispatch d ns (KeyDown tag key) s = (s, []))
   \<and> (selectedNodeIds s \<noteq> [] \<and> (key = ''Delete'' \<or> key = ''Backspace'')
      \<and> tag \<noteq> Some ''INPUT'' \<and> tag \<noteq> Some ''TEXTAREA''
      \<longrightarrow> dispatch d ns (KeyDown tag key) s
          = (s\<lparr>selectedNodeIds := [], selectionMenuPos := None, activeNodeId := None\<rparr>,
             [DeleteNotes (selectedNodeIds s)]))
   \<and> dispatch d ns (KeyDown tag ''Escape'') s
       = (s\<lparr>selectedNodeIds := [], activeNodeId := None, selectionMenuPos := None,
             linkSourceId := None, mode := DEFAULT\<rparr>, [])"
  by (auto simp add: handleKeyDown_def Let_def)

theorem key_handling_witness:
  "dispatch surface600 [] (KeyDown (Some ''TEXTAREA'') ''Backspace'')
      (initial_state\<lparr>selectedNodeIds := [''n1'', ''n2'']\<rparr>)
     = (initial_state\<lparr>selectedNodeIds := [''n1'', ''n2'']\<rparr>, [])
   \<and> dispatch surface600 [] (KeyDown (Some ''BODY'') ''Delete'')
      (initial_state\<lparr>selectedNodeIds := [''n1'', ''n2'']\<rparr>)
     = (initial_state, [DeleteNotes [''n1'', ''n2'']])
   \<and> dispatch surface600 [] (KeyDown (Some ''TEXTAREA'') ''Escape'')
      (initial_state\<lparr>selectedNodeIds := [''n1'', ''n2''], mode := PAN\<rparr>)
     = (initial_state, [])"
  using key_handling [where s = "initial_state\<lparr>selectedNodeIds := [''n1'', ''n2'']\<rparr>"
          and key = "''Backspace''" and tag = "Some ''TEXTAREA''" and d = surface600 and ns = "[]"]
        key_handling [where s = "initial_state\<lparr>selectedNodeIds := [''n1'', ''n2'']\<rparr>"
          and key = "''Delete''" and tag = "Some ''BODY''" and d = surface600 and ns = "[]"]
        key_handling [where s = "initial_state\<lparr>selectedNodeIds := [''n1'', ''n2''], mode := PAN\<rparr>"
          and key = "''Escape''" and tag = "Some ''TEXTAREA''" and d = surface600 and ns = "[]"]
  by (simp add: initial_state_def)

section \<open>Rubber-band selection\<close>

lemma set_set_add: "set (set_add i s) = insert i (set s)"
  by (auto simp add: set_add_def)

lemma set_fold_set_add: "set (fold set_add xs acc) = set acc \<union> set xs"
  by (induction xs arbitrary: acc) (auto simp add: set_set_add)

lemma set_new_Set: "set (new_Set xs) = set xs"
  by (simp add: new_Set_def set_fold_set_add)

lemma select_step_normalized:
  "select_step (normalizeBox b) n acc
     = (if within_radius_of_box b n then set_add (note_id n) acc else acc)"
  unfolding select_step_def normalizeBox_def within_radius_of_box_def NODE_RADIUS_def Let_def
  by (simp add: power2_eq_square min_def max_def abs_if)

lemma set_fold_select_step:
  "set (fold (select_step (normalizeBox b)) ns acc)
     = set acc \<union> {note_id n |n. n \<in> set ns \<and> within_radius_of_box b n}"
  by (induction ns arbitrary: acc) (auto simp add: select_step_normalized set_set_add)

text \<open>
  Claim C5. On a pointer-up that ends a rubber-band gesture (mode RectangleSelect, a selection
  box present) the box is normalised to a non-negative width and height, and the new
  selection consists of the seed (the previous selection when the additive modifier is held,
  nothing otherwise) together with exactly the notes whose centre is less than the radius 30
  away from the closest point of the normalised rectangle. A node at (100,100) is hit by the
  rectangle from (0,0) to (95,100) and missed by the rectangle from (0,0) to (50,50).
\<close>

theorem rubber_band_selection:
  assumes "mode s = SELECT" and "selectionBox s = Some b"
  shows "set (selectedNodeIds (fst (dispatch d ns (PointerUp e) s)))
           = (if shiftKey e then set (selectedNodeIds s) else {})
             \<union> {note_id n |n. n \<in> set ns \<and> within_radius_of_box b n}
    \<and> 0 \<le> box_w (normalizeBox b) \<and> 0 \<le> box_h (normalizeBox b)
    \<and> (note_x m = 100 \<and> note_y m = 100
        \<longrightarrow> within_radius_of_box \<lparr>box_x = 0, box_y = 0, box_w = 95, box_h = 100\<rparr> m
          \<and> \<not> within_radius_of_box \<lparr>box_x = 0, box_y = 0, box_w = 50, box_h = 50\<rparr> m)"
proof -
  have "set (selectedNodeIds (fst (dispatch d ns (PointerUp e) s)))
          = set (fold (select_step (normalizeBox b)) ns
                   (new_Set (if shiftKey e then selectedNodeIds s else [])))"
    using assms by (simp add: handlePointerUp_def Let_def)
  then have "set (selectedNodeIds (fst (dispatch d ns (PointerUp e) s)))
           = (if shiftKey e then set (selectedNodeIds s) else {})
             \<union> {note_id n |n. n \<in> set ns \<and> within_radius_of_box b n}"
    by (simp add: set_fold_select_step set_new_Set)
  moreover have "0 \<le> box_w (normalizeBox b) \<and> 0 \<le> box_h (normalizeBox b)"
    by (simp add: normalizeBox_def)
  moreover have "note_x m = 100 \<and> note_y m = 100
        \<longrightarrow> within_radius_of_box \<lparr>box_x = 0, box_y = 0, box_w = 95, box_h = 100\<rparr> m
          \<and> \<not> within_radius_of_box \<lparr>box_x = 0, box_y = 0, box_w = 50, box_h = 50\<rparr> m"
    by (simp add: within_radius_of_box_def)
  ultimately show ?thesis by blast
qed

theorem rubber_band_selection_witness:
  "mode (initial_state\<lparr>mode := SELECT,
           selectionBox := Some \<lparr>box_x = 95, box_y = 100, box_w = - 95, box_h = - 100\<rparr>\<rparr>) = SELECT
   \<and> note_x (sample_note ''n1'' 100 100 []) = 100 \<and> note_y (sample_note ''n1'' 100 100 []) = 100
   \<and> set (selectedNodeIds (fst (dispatch surface600 [sample_note ''n1'' 100 100 []]
            (PointerUp (pointer_at 0 0 False))
            (initial_state\<lparr>mode := SELECT,
               selectionBox := Some \<lparr>box_x = 95, box_y = 100, box_w = - 95, box_h = - 100\<rparr>\<rparr>))))
       = {''n1''}
   \<and> set (selectedNodeIds (fst (dispatch surface600 [sample_note ''n1'' 100 100 []]
            (PointerUp (pointer_at 50 50 False))
            (initial_state\<lparr>mode := SELECT,
               selectionBox := Some \<lparr>box_x = 0, box_y = 0, box_w = 50, box_h = 50\<rparr>\<rparr>))))
       = {}"
proof -
  let ?n = "sample_note ''n1'' 100 100 []"
  let ?b1 = "\<lparr>box_x = 95, box_y = 100, box_w = - 95, box_h = - 100\<rparr>"
  let ?b2 = "\<lparr>box_x = 0, box_y = 0, box_w = 50, box_h = 50\<rparr>"
  let ?s1 = "initial_state\<lparr>mode := SELECT, selectionBox := Some ?b1\<rparr>"
  let ?s2 = "initial_state\<lparr>mode := SELECT, selectionBox := Some ?b2\<rparr>"
  have m1: "mode ?s1 = SELECT" and m2: "mode ?s2 = SELECT" by simp_all
  have b1: "selectionBox ?s1 = Some ?b1" and b2: "selectionBox ?s2 = Some ?b2" by simp_all
  have xy: "note_x ?n = 100 \<and> note_y ?n = 100" by (simp add: sample_note_def)
  have h1: "within_radius_of_box ?b1 ?n"
    by (simp add: within_radius_of_box_def sample_note_def)
  have h2: "\<not> within_radius_of_box ?b2 ?n"
    using rubber_band_selection [OF m2 b2, where m = ?n] xy by blast
  have "set (selectedNodeIds (fst (dispatch surface600 [?n] (PointerUp (pointer_at 0 0 False)) ?s1)))
          = {''n1''}"
    using rubber_band_selection [OF m1 b1, where d = surface600 and ns = "[?n]"
            and e = "pointer_at 0 0 False" and m = ?n] h1
    by (simp add: pointer_at_def sample_note_def)
  moreover
  have "set (selectedNodeIds (fst (dispatch surface600 [?n] (PointerUp (pointer_at 50 50 False)) ?s2)))
          = {}"
    using rubber_band_selection [OF m2 b2, where d = surface600 and ns = "[?n]"
            and e = "pointer_at 50 50 False" and m = ?n] h2
    by (simp add: pointer_at_def)
  ultimately show ?thesis using m1 xy by simp
qed

section \<open>Drag sessions\<close>

subsection \<open>The commit on pointer-up\<close>

lemma fold_commit_step:
  "fold (commit_step ns) ov acc = acc @ committed_batch ns ov"
  by (induction ov arbitrary: acc)
     (auto simp add: commit_step_def committed_batch_def moved_to_def split: option.splits)

lemma commit_updates_batch: "commit_updates ns ov = committed_batch ns ov"
  by (simp add: commit_updates_def fold_commit_step)

text \<open>
  Claim C2. On a pointer-up with a non-empty active-drag set, if some overridden identifier
  is the identifier of a present note, exactly one call of \<^verbatim>\<open>onUpdateNotes\<close> is made; its
  batch holds, for each such identifier in turn, the snapshot of that note with the two
  coordinates replaced by the override and nothing else changed. If no overridden
  identifier matches a present note, no call is made and the active-drag set and the
  overrides are empty at once; the same holds when the gesture captured no entity at all.
\<close>

theorem drag_commit_batch:
  "(activeDragIds s \<noteq> [] \<and> (\<exists>ip \<in> set (dragOverrides s). find_note ns (fst ip) \<noteq> None)
      \<longrightarrow> snd (dispatch d ns (PointerUp e) s)
            = [UpdateNotes (committed_batch ns (dragOverrides s))])
   \<and> (activeDragIds s \<noteq> [] \<and> (\<forall>ip \<in> set (dragOverrides s). find_note ns (fst ip) = None)
      \<longrightarrow> snd (dispatch d ns (PointerUp e) s) = []
          \<and> activeDragIds (fst (dispatch d ns (PointerUp e) s)) = []
          \<and> dragOverrides (fst (dispatch d ns (PointerUp e) s)) = [])
   \<and> (activeDragIds s = [] \<and> dragOverrides s = []
      \<longrightarrow> snd (dispatch d ns (PointerUp e) s) = []
          \<and> activeDragIds (fst (dispatch d ns (PointerUp e) s)) = []
          \<and> dragOverrides (fst (dispatch d ns (PointerUp e) s)) = [])"
proof -
  have ne: "committed_batch ns (dragOverrides s) \<noteq> []
            \<longleftrightarrow> (\<exists>ip \<in> set (dragOverrides s). find_note ns (fst ip) \<noteq> None)"
    by (auto simp add: committed_batch_def filter_empty_conv)
  show ?thesis
    unfolding dispatch.simps handlePointerUp_def commit_updates_batch Let_def
    using ne by (auto split: option.splits)
qed

theorem drag_commit_batch_witness:
  "snd (dispatch surface600 [sample_note ''a'' 0 0 [''b''], sample_note ''b'' 100 0 []]
          (PointerUp (pointer_at 30 40 False))
          (initial_state\<lparr>activeDragIds := [''a'', ''gone''],
             dragOverrides := [(''a'', \<lparr>pt_x = 30, pt_y = 40\<rparr>), (''gone'', \<lparr>pt_x = 1, pt_y = 2\<rparr>)]\<rparr>))
     = [UpdateNotes [sample_note ''a'' 30 40 [''b'']]]
   \<and> dispatch surface600 [sample_note ''b'' 100 0 []] (PointerUp (pointer_at 30 40 False))
          (initial_state\<lparr>activeDragIds := [''a''],
             dragOverrides := [(''a'', \<lparr>pt_x = 30, pt_y = 40\<rparr>)]\<rparr>)
     = (initial_state, [])
   \<and> snd (dispatch surface600 [] (PointerUp (pointer_at 30 40 False)) initial_state) = []"
proof -
  let ?ns = "[sample_note ''a'' 0 0 [''b''], sample_note ''b'' 100 0 []]"
  let ?ov = "[(''a'', \<lparr>pt_x = 30, pt_y = 40\<rparr>), (''gone'', \<lparr>pt_x = 1, pt_y = 2\<rparr>)]"
  let ?s1 = "initial_state\<lparr>activeDragIds := [''a'', ''gone''], dragOverrides := ?ov\<rparr>"
  let ?s2 = "initial_state\<lparr>activeDragIds := [''a''],
               dragOverrides := [(''a'', \<lparr>pt_x = 30, pt_y = 40\<rparr>)]\<rparr>"
  have a1: "activeDragIds ?s1 \<noteq> [] \<and> (\<exists>ip \<in> set (dragOverrides ?s1). find_note ?ns (fst ip) \<noteq> None)"
    by (simp add: find_note_def sample_note_def)
  have b1: "committed_batch ?ns (dragOverrides ?s1) = [sample_note ''a'' 30 40 [''b'']]"
    by (simp add: committed_batch_def find_note_def sample_note_def moved_to_def)
  have a2: "activeDragIds ?s2 \<noteq> []
            \<and> (\<forall>ip \<in> set (dragOverrides ?s2). find_note [sample_note ''b'' 100 0 []] (fst ip) = None)"
    by (simp add: find_note_def sample_note_def)
  have a3: "activeDragIds initial_state = [] \<and> dragOverrides initial_state = []"
    by (simp add: initial_state_def)
  have "snd (dispatch surface600 ?ns (PointerUp (pointer_at 30 40 False)) ?s1)
          = [UpdateNotes (committed_batch ?ns (dragOverrides ?s1))]"
    using drag_commit_batch [of ?s1 ?ns surface600 "pointer_at 30 40 False"] a1 by blast
  then have "snd (dispatch surface600 ?ns (PointerUp (pointer_at 30 40 False)) ?s1)
          = [UpdateNotes [sample_note ''a'' 30 40 [''b'']]]"
    by (simp only: b1)
  moreover
  have "snd (dispatch surface600 [sample_note ''b'' 100 0 []] (PointerUp (pointer_at 30 40 False)) ?s2)
          = []"
    using drag_commit_batch [of ?s2 "[sample_note ''b'' 100 0 []]" surface600 "pointer_at 30 40 False"]
      a2 by blast
  moreover
  have "fst (dispatch surface600 [sample_note ''b'' 100 0 []] (PointerUp (pointer_at 30 40 False)) ?s2)
          = initial_state"
    by (simp add: handlePointerUp_def commit_updates_def commit_step_def find_note_def
          sample_note_def initial_state_def)
  moreover
  have "snd (dispatch surface600 [] (PointerUp (pointer_at 30 40 False)) initial_state) = []"
    using drag_commit_batch [of initial_state "[]" surface600 "pointer_at 30 40 False"] a3
    by blast
  ultimately show ?thesis by (simp add: prod_eq_iff)
qed

subsection \<open>The three parts of a session\<close>

lemma capture_step_keys:
  assumes "map fst (fst acc) = snd (snd acc)" and "map fst (fst (snd acc)) = snd (snd acc)"
  shows "map fst (fst (capture_step ns c i acc)) = snd (snd (capture_step ns c i acc))
       \<and> map fst (fst (snd (capture_step ns c i acc))) = snd (snd (capture_step ns c i acc))"
  using assms
  by (cases acc) (auto simp add: capture_step_def update_keys set_add_def split: option.splits)

lemma fold_capture_step_keys:
  assumes "map fst (fst acc) = snd (snd acc)" and "map fst (fst (snd acc)) = snd (snd acc)"
  shows "map fst (fst (fold (capture_step ns c) ids acc))
           = snd (snd (fold (capture_step ns c) ids acc))
       \<and> map fst (fst (snd (fold (capture_step ns c) ids acc)))
           = snd (snd (fold (capture_step ns c) ids acc))"
  using assms
proof (induction ids arbitrary: acc)
  case Nil
  then show ?case by simp
next
  case (Cons i ids)
  from capture_step_keys [OF Cons.prems, of ns c i]
  show ?case by (simp add: Cons.IH)
qed

lemma drag_initiation_consistent:
  assumes "mode s = DEFAULT" and "\<not> isLayoutLocked s"
  shows "session_consistent (fst (handleNodePointerDown d ns e n s))"
  using assms fold_capture_step_keys [of "([], [], [])" ns "getPointerPosition d e"]
  by (simp add: handleNodePointerDown_def session_consistent_def Let_def)

lemma fold_drag_step_keys:
  assumes "set ids \<subseteq> set (map fst ov)"
  shows "map fst (fst (fold (drag_step c offs) ids (ov, b))) = map fst ov"
  using assms
proof (induction ids arbitrary: ov b)
  case Nil
  then show ?case by simp
next
  case (Cons i ids)
  show ?case
  proof (cases "map_of offs i")
    case None
    then have "drag_step c offs i (ov, b) = (ov, b)"
      by (simp add: drag_step_def)
    with Cons show ?thesis by simp
  next
    case (Some off)
    let ?ov = "AList.update i \<lparr>pt_x = pt_x c - off_dx off, pt_y = pt_y c - off_dy off\<rparr> ov"
    have k: "map fst ?ov = map fst ov"
      using Cons.prems by (simp add: update_keys)
    have "map fst (fst (fold (drag_step c offs) ids (?ov, True))) = map fst ?ov"
      by (rule Cons.IH) (use Cons.prems k in simp)
    moreover have "drag_step c offs i (ov, b) = (?ov, True)"
      using Some by (simp add: drag_step_def)
    ultimately show ?thesis using k by simp
  qed
qed

lemma pointer_move_keys:
  assumes "session_consistent s"
  shows "map fst (dragOverrides (handlePointerMove d e s)) = map fst (dragOverrides s)
       \<and> dragStartOffsets (handlePointerMove d e s) = dragStartOffsets s
       \<and> activeDragIds (handlePointerMove d e s) = activeDragIds s"
proof -
  have "map fst (fst (fold (drag_step c (dragStartOffsets s)) (activeDragIds s)
                        (dragOverrides s, False))) = map fst (dragOverrides s)" for c
    by (rule fold_drag_step_keys) (use assms in \<open>simp add: session_consistent_def\<close>)
  then show ?thesis
    by (simp add: handlePointerMove_def Let_def)
qed

lemma dispatch_keeps_session:
  assumes "session_consistent s" and "\<not> is_node_pointer_down ev" and "\<not> is_pointer_up ev"
  shows "map fst (dragOverrides (fst (dispatch d ns ev s))) = map fst (dragOverrides s)
       \<and> dragStartOffsets (fst (dispatch d ns ev s)) = dragStartOffsets s
       \<and> activeDragIds (fst (dispatch d ns ev s)) = activeDragIds s"
proof (cases ev)
  case (PointerMove e)
  with pointer_move_keys [OF assms(1)] show ?thesis by simp
next
  case (CanvasPointerDown e)
  then show ?thesis by (simp add: handlePointerDown_def Let_def)
next
  case (KeyDown t k)
  then show ?thesis by (simp add: handleKeyDown_def Let_def)
qed (use assms in \<open>simp_all add: onWheel_def handleNodeDoubleClick_def Let_def\<close>)

lemma run_keeps_session:
  assumes "session_consistent s"
    and "\<forall>ev \<in> set evs. \<not> is_node_pointer_down ev \<and> \<not> is_pointer_up ev"
  shows "map fst (dragOverrides (run d ns evs s)) = map fst (dragOverrides s)
       \<and> dragStartOffsets (run d ns evs s) = dragStartOffsets s
       \<and> activeDragIds (run d ns evs s) = activeDragIds s"
  using assms
proof (induction evs arbitrary: s)
  case Nil
  then show ?case by (simp add: run_def)
next
  case (Cons ev evs)
  let ?s = "fst (dispatch d ns ev s)"
  have k: "map fst (dragOverrides ?s) = map fst (dragOverrides s)
       \<and> dragStartOffsets ?s = dragStartOffsets s \<and> activeDragIds ?s = activeDragIds s"
    by (rule dispatch_keeps_session) (use Cons.prems in simp_all)
  then have c: "session_consistent ?s"
    using Cons.prems(1) by (simp add: session_consistent_def)
  have "map fst (dragOverrides (run d ns evs ?s)) = map fst (dragOverrides ?s)
       \<and> dragStartOffsets (run d ns evs ?s) = dragStartOffsets ?s
       \<and> activeDragIds (run d ns evs ?s) = activeDragIds ?s"
    by (rule Cons.IH [OF c]) (use Cons.prems in simp)
  with k show ?case by (simp add: run_def)
qed

text \<open>
  Claim C7. A pointer-down on a node that starts a drag session (mode Default, layout not
  locked) leaves the identifiers with a live override, the identifiers with a start offset
  and the active-drag set equal, and they are equal after every run of events that follows
  and holds no further pointer-down on a node and no pointer-up: no such event, a
  pointer-move in particular, adds or removes a member of any of the three.
\<close>

theorem drag_session_key_sets:
  assumes "mode s = DEFAULT" and "\<not> isLayoutLocked s"
    and "\<forall>ev \<in> set evs. \<not> is_node_pointer_down ev \<and> \<not> is_pointer_up ev"
  shows "set (map fst (dragOverrides (run d ns evs (fst (dispatch d ns (NodePointerDown e n) s)))))
           = set (activeDragIds (run d ns evs (fst (dispatch d ns (NodePointerDown e n) s))))
    \<and> set (map fst (dragStartOffsets (run d ns evs (fst (dispatch d ns (NodePointerDown e n) s)))))
           = set (activeDragIds (run d ns evs (fst (dispatch d ns (NodePointerDown e n) s))))
    \<and> activeDragIds (run d ns evs (fst (dispatch d ns (NodePointerDown e n) s)))
           = activeDragIds (fst (dispatch d ns (NodePointerDown e n) s))
    \<and> map fst (dragOverrides (run d ns evs (fst (dispatch d ns (NodePointerDown e n) s))))
           = map fst (dragOverrides (fst (dispatch d ns (NodePointerDown e n) s)))
    \<and> dragStartOffsets (run d ns evs (fst (dispatch d ns (NodePointerDown e n) s)))
           = dragStartOffsets (fst (dispatch d ns (NodePointerDown e n) s))"
proof -
  let ?s1 = "fst (handleNodePointerDown d ns e n s)"
  have c: "session_consistent ?s1"
    using assms(1,2) by (rule drag_initiation_consistent)
  from run_keeps_session [OF c assms(3), of d ns] c
  show ?thesis by (simp add: session_consistent_def)
qed

theorem drag_session_key_sets_witness:
  "mode initial_state = DEFAULT \<and> \<not> isLayoutLocked initial_state
   \<and> list_all (\<lambda>ev. \<not> is_node_pointer_down ev \<and> \<not> is_pointer_up ev)
         [PointerMove (pointer_at 30 40 False), Wheel 1, PointerMove (pointer_at 50 60 True)]
   \<and> set (map fst (dragOverrides
        (run surface600 [sample_note ''a'' 0 0 [''b''], sample_note ''b'' 100 0 []]
           [PointerMove (pointer_at 30 40 False), Wheel 1, PointerMove (pointer_at 50 60 True)]
           (fst (dispatch surface600 [sample_note ''a'' 0 0 [''b''], sample_note ''b'' 100 0 []]
              (NodePointerDown (pointer_at 10 10 False) (sample_note ''a'' 0 0 [''b'']))
              initial_state))))) = {''a''}
   \<and> set (map fst (dragStartOffsets
        (run surface600 [sample_note ''a'' 0 0 [''b''], sample_note ''b'' 100 0 []]
           [PointerMove (pointer_at 30 40 False), Wheel 1, PointerMove (pointer_at 50 60 True)]
           (fst (dispatch surface600 [sample_note ''a'' 0 0 [''b''], sample_note ''b'' 100 0 []]
              (NodePointerDown (pointer_at 10 10 False) (sample_note ''a'' 0 0 [''b'']))
              initial_state))))) = {''a''}"
proof -
  let ?ns = "[sample_note ''a'' 0 0 [''b''], sample_note ''b'' 100 0 []]"
  let ?evs = "[PointerMove (pointer_at 30 40 False), Wheel 1, PointerMove (pointer_at 50 60 True)]"
  let ?down = "NodePointerDown (pointer_at 10 10 False) (sample_note ''a'' 0 0 [''b''])"
  have h1: "mode initial_state = DEFAULT" and h2: "\<not> isLayoutLocked initial_state"
    by (simp_all add: initial_state_def)
  have h3: "\<forall>ev \<in> set ?evs. \<not> is_node_pointer_down ev \<and> \<not> is_pointer_up ev"
    by simp
  have a: "activeDragIds (fst (dispatch surface600 ?ns ?down initial_state)) = [''a'']"
    by (simp add: handleNodePointerDown_def initial_state_def sample_note_def new_Set_def
          set_add_def capture_step_def find_note_def Let_def)
  let ?s2 = "run surface600 ?ns ?evs (fst (dispatch surface600 ?ns ?down initial_state))"
  note t = drag_session_key_sets [OF h1 h2 h3, of surface600 ?ns "pointer_at 10 10 False"
         "sample_note ''a'' 0 0 [''b'']"]
  from t have c1: "set (map fst (dragOverrides ?s2)) = set (activeDragIds ?s2)"
    and c2: "set (map fst (dragStartOffsets ?s2)) = set (activeDragIds ?s2)"
    and c3: "activeDragIds ?s2 = activeDragIds (fst (dispatch surface600 ?ns ?down initial_state))"
    by blast+
  from c3 have c4: "activeDragIds ?s2 = [''a'']" by (simp only: a)
  have "set (map fst (dragOverrides ?s2)) = {''a''} \<and> set (map fst (dragStartOffsets ?s2)) = {''a''}"
    using c1 c2 c4 by simp
  with h1 h2 h3 show ?thesis by (simp only: list_all_iff) blast
qed

subsection \<open>From the commit to the refreshed notes list\<close>

lemma fold_drag_step_no_offsets: "fold (drag_step c []) ids acc = acc"
  by (induction ids) (simp_all add: drag_step_def)

lemma pointer_up_commits:
  assumes "activeDragIds s \<noteq> []" and "committed_batch ns (dragOverrides s) \<noteq> []"
  shows "commit_pending ns (fst (handlePointerUp d ns e s))
       \<and> dragOverrides (fst (handlePointerUp d ns e s)) = dragOverrides s
       \<and> activeDragIds (fst (handlePointerUp d ns e s)) = activeDragIds s"
  using assms
  by (auto simp add: handlePointerUp_def commit_updates_batch commit_pending_def Let_def
           split: option.splits)

lemma dispatch_keeps_pending:
  assumes "commit_pending ns s" and "\<not> is_node_pointer_down ev"
  shows "commit_pending ns (fst (dispatch d ns ev s))
       \<and> dragOverrides (fst (dispatch d ns ev s)) = dragOverrides s
       \<and> activeDragIds (fst (dispatch d ns ev s)) = activeDragIds s"
proof (cases ev)
  case (PointerMove e)
  with assms(1) show ?thesis
    by (simp add: handlePointerMove_def commit_pending_def fold_drag_step_no_offsets Let_def)
next
  case (PointerUp e)
  with assms(1) pointer_up_commits [of s ns d e] show ?thesis
    by (simp add: commit_pending_def)
next
  case (CanvasPointerDown e)
  with assms(1) show ?thesis by (simp add: handlePointerDown_def commit_pending_def Let_def)
next
  case (KeyDown t k)
  with assms(1) show ?thesis by (simp add: handleKeyDown_def commit_pending_def Let_def)
qed (use assms in \<open>simp_all add: onWheel_def handleNodeDoubleClick_def commit_pending_def Let_def\<close>)

lemma run_keeps_pending:
  assumes "commit_pending ns s" and "\<forall>ev \<in> set evs. \<not> is_node_pointer_down ev"
  shows "commit_pending ns (run d ns evs s)
       \<and> dragOverrides (run d ns evs s) = dragOverrides s
       \<and> activeDragIds (run d ns evs s) = activeDragIds s"
  using assms
proof (induction evs arbitrary: s)
  case Nil
  then show ?case by (simp add: run_def)
next
  case (Cons ev evs)
  let ?s = "fst (dispatch d ns ev s)"
  have k: "commit_pending ns ?s \<and> dragOverrides ?s = dragOverrides s
          \<and> activeDragIds ?s = activeDragIds s"
    by (rule dispatch_keeps_pending) (use Cons.prems in simp_all)
  then have "commit_pending ns (run d ns evs ?s)
       \<and> dragOverrides (run d ns evs ?s) = dragOverrides ?s
       \<and> activeDragIds (run d ns evs ?s) = activeDragIds ?s"
    using Cons.prems(2) by (intro Cons.IH) simp_all
  with k show ?case by (simp add: run_def)
qed

lemma find_note_id: "find_note ns a = Some src \<Longrightarrow> note_id src = a"
  by (auto simp add: find_note_def find_Some_iff)

lemma find_note_member: "n \<in> set ns \<Longrightarrow> find_note ns (note_id n) \<noteq> None"
  by (auto simp add: find_note_def find_None_iff)

lemma map_of_rev_distinct:
  assumes "distinct (map fst xs)"
  shows "map_of (rev xs) = map_of xs"
proof -
  have "distinct (map fst (rev xs))" using assms by (simp add: rev_map [symmetric])
  then show ?thesis using assms by (simp add: map_of_inject_set)
qed

lemma batch_entries:
  "map (\<lambda>u. (note_id u, u)) (committed_batch ns ov)
     = map (\<lambda>ip. (fst ip, moved_to (the (find_note ns (fst ip))) (snd ip)))
         (filter (\<lambda>ip. find_note ns (fst ip) \<noteq> None) ov)"
  by (auto simp add: committed_batch_def moved_to_def dest: find_note_id)

lemma map_of_batch_entries:
  "distinct (map fst ov) \<Longrightarrow>
   map_of (map (\<lambda>ip. (fst ip, moved_to (the (find_note ns (fst ip))) (snd ip)))
             (filter (\<lambda>ip. find_note ns (fst ip) \<noteq> None) ov)) k
     = (case map_of ov k of
          None \<Rightarrow> None
        | Some p \<Rightarrow> if find_note ns k \<noteq> None then Some (moved_to (the (find_note ns k)) p)
                    else None)"
proof (induction ov)
  case Nil
  then show ?case by simp
next
  case (Cons ip ov)
  then have "map_of ov (fst ip) = None"
    by (simp add: map_of_eq_None_iff)
  with Cons show ?case by (cases ip) (auto split: option.splits)
qed

lemma store_lookup:
  assumes "distinct (map fst ov)"
  shows "map_of (rev (map (\<lambda>u. (note_id u, u)) (committed_batch ns ov))) k
     = (case map_of ov k of
          None \<Rightarrow> None
        | Some p \<Rightarrow> if find_note ns k \<noteq> None then Some (moved_to (the (find_note ns k)) p)
                    else None)"
proof -
  have "distinct (map fst (map (\<lambda>u. (note_id u, u)) (committed_batch ns ov)))"
    unfolding batch_entries using assms by (simp add: o_def distinct_map_filter)
  then have "map_of (rev (map (\<lambda>u. (note_id u, u)) (committed_batch ns ov)))
              = map_of (map (\<lambda>u. (note_id u, u)) (committed_batch ns ov))"
    by (rule map_of_rev_distinct)
  then show ?thesis
    unfolding batch_entries using map_of_batch_entries [OF assms, of ns k] by simp
qed

lemma store_note:
  assumes "distinct (map fst ov)" and "n \<in> set ns"
  shows "node_at (case map_of (rev (map (\<lambda>u. (note_id u, u)) (committed_batch ns ov))) (note_id n) of
                    Some u \<Rightarrow> u | None \<Rightarrow> n)
         = override_at ov n"
proof -
  from assms(2) obtain m where m: "find_note ns (note_id n) = Some m"
    using find_note_member by fastforce
  then have "note_id m = note_id n" by (rule find_note_id)
  with m show ?thesis
    by (simp add: store_lookup [OF assms(1)] node_at_def override_at_def moved_to_def
          split: option.splits)
qed

lemma StaticNodesLayer_filter:
  "StaticNodesLayer ns act = map node_at (filter (\<lambda>n. note_id n \<notin> set act) ns)"
  by (induction ns) (simp_all add: StaticNodesLayer_def node_at_def)

lemma DynamicNodesLayer_filter:
  "DynamicNodesLayer ns ov
     = map (override_at ov) (filter (\<lambda>n. map_of ov (note_id n) \<noteq> None) ns)"
proof (cases "ov = []")
  case True
  then show ?thesis by (simp add: DynamicNodesLayer_def)
next
  case False
  have "List.map_filter
            (\<lambda>n. case map_of ov (note_id n) of
                   None \<Rightarrow> None
                 | Some pos \<Rightarrow> Some \<lparr>node_key = note_id n, node_tx = pt_x pos, node_ty = pt_y pos\<rparr>)
            ns
        = map (override_at ov) (filter (\<lambda>n. map_of ov (note_id n) \<noteq> None) ns)"
    by (induction ns) (auto simp add: override_at_def)
  with False show ?thesis by (simp add: DynamicNodesLayer_def)
qed

lemma render_nodes_override_at:
  assumes "set (map fst ov) = set act"
  shows "set (StaticNodesLayer ns act @ DynamicNodesLayer ns ov) = override_at ov ` set ns"
proof -
  have none: "map_of ov i = None \<longleftrightarrow> i \<notin> set act" for i
    using assms by (simp add: map_of_eq_None_iff)
  have "map node_at (filter (\<lambda>n. map_of ov (note_id n) = None) ns)
          = map (override_at ov) (filter (\<lambda>n. map_of ov (note_id n) = None) ns)"
    by (rule map_cong) (simp_all add: override_at_def)
  then have "map node_at (filter (\<lambda>n. note_id n \<notin> set act) ns)
          = map (override_at ov) (filter (\<lambda>n. map_of ov (note_id n) = None) ns)"
    by (simp only: none)
  then have "set (StaticNodesLayer ns act @ DynamicNodesLayer ns ov)
          = override_at ov ` {n \<in> set ns. map_of ov (note_id n) = None}
            \<union> override_at ov ` {n \<in> set ns. map_of ov (note_id n) \<noteq> None}"
    by (simp add: StaticNodesLayer_filter DynamicNodesLayer_filter)
  also have "\<dots> = override_at ov ` set ns" by blast
  finally show ?thesis .
qed

lemma render_after_store:
  assumes "distinct (map fst ov)" and "set (map fst ov) = set act"
  shows "set (StaticNodesLayer (handleBatchUpdateNotes (committed_batch ns ov) ns) []
              @ DynamicNodesLayer (handleBatchUpdateNotes (committed_batch ns ov) ns) [])
         = set (StaticNodesLayer ns act @ DynamicNodesLayer ns ov)"
proof -
  let ?U = "map_of (rev (map (\<lambda>u. (note_id u, u)) (committed_batch ns ov)))"
  let ?upd = "\<lambda>n. case ?U (note_id n) of Some u \<Rightarrow> u | None \<Rightarrow> n"
  have "StaticNodesLayer (handleBatchUpdateNotes (committed_batch ns ov) ns) []
          = map (\<lambda>n. node_at (?upd n)) ns"
    by (simp add: StaticNodesLayer_filter handleBatchUpdateNotes_def o_def)
  also have "\<dots> = map (override_at ov) ns"
    by (rule map_cong) (simp_all add: store_note [OF assms(1)])
  finally have "set (StaticNodesLayer (handleBatchUpdateNotes (committed_batch ns ov) ns) []
              @ DynamicNodesLayer (handleBatchUpdateNotes (committed_batch ns ov) ns) [])
         = override_at ov ` set ns"
    by (simp add: DynamicNodesLayer_def)
  then show ?thesis
    by (simp only: render_nodes_override_at [OF assms(2)])
qed

text \<open>
  Claim C1. Let a pointer-up commit a non-empty drag session (the active-drag set is not
  empty and some overridden identifier is the identifier of a present note). The pointer-up
  leaves the override map and the active-drag set as they were, and so do the events that
  may follow while the notes list is still the same, as long as none of them is a
  pointer-down on a node, which would open another session (in App the store answers the
  commit at once, so no event comes in between at all). Throughout, the node layers render
  what they rendered at the pointer-up: every dragged node at its last override. The effect
  that observes a new notes list empties the override map and the active-drag set in one
  step. When that list is the one the store derives from the committed batch (and the
  session is well-formed: override keys distinct and equal to the active-drag set), the
  node elements rendered after that step are those rendered before it, so no node is ever
  shown at a reverted or other coordinate.
\<close>

theorem drag_commit_two_phase_clear:
  assumes "activeDragIds s \<noteq> []"
    and "\<exists>ip \<in> set (dragOverrides s). find_note ns (fst ip) \<noteq> None"
    and "\<forall>ev \<in> set evs. \<not> is_node_pointer_down ev"
  shows "dragOverrides (run d ns evs (fst (dispatch d ns (PointerUp e) s))) = dragOverrides s
    \<and> activeDragIds (run d ns evs (fst (dispatch d ns (PointerUp e) s))) = activeDragIds s
    \<and> render_nodes ns (run d ns evs (fst (dispatch d ns (PointerUp e) s))) = render_nodes ns s
    \<and> dragOverrides (notesEffect (run d ns evs (fst (dispatch d ns (PointerUp e) s)))) = []
    \<and> activeDragIds (notesEffect (run d ns evs (fst (dispatch d ns (PointerUp e) s)))) = []
    \<and> (distinct (map fst (dragOverrides s))
         \<and> set (map fst (dragOverrides s)) = set (activeDragIds s)
       \<longrightarrow> set (render_nodes (handleBatchUpdateNotes (committed_batch ns (dragOverrides s)) ns)
                   (notesEffect (run d ns evs (fst (dispatch d ns (PointerUp e) s)))))
           = set (render_nodes ns s))"
proof -
  let ?s1 = "fst (dispatch d ns (PointerUp e) s)"
  let ?s2 = "run d ns evs ?s1"
  have ne: "committed_batch ns (dragOverrides s) \<noteq> []"
    using assms(2) by (auto simp add: committed_batch_def filter_empty_conv)
  have p1: "commit_pending ns ?s1 \<and> dragOverrides ?s1 = dragOverrides s
            \<and> activeDragIds ?s1 = activeDragIds s"
    using pointer_up_commits [OF assms(1) ne, of d e] by simp
  then have p2: "commit_pending ns ?s2 \<and> dragOverrides ?s2 = dragOverrides ?s1
            \<and> activeDragIds ?s2 = activeDragIds ?s1"
    using assms(3) by (intro run_keeps_pending) simp_all
  from p1 p2 have same: "dragOverrides ?s2 = dragOverrides s" "activeDragIds ?s2 = activeDragIds s"
    by simp_all
  from p2 have flag: "dragCommitRef ?s2" by (simp add: commit_pending_def)
  then have cleared: "dragOverrides (notesEffect ?s2) = []" "activeDragIds (notesEffect ?s2) = []"
    by (simp_all add: notesEffect_def)
  have "distinct (map fst (dragOverrides s)) \<and> set (map fst (dragOverrides s)) = set (activeDragIds s)
       \<longrightarrow> set (render_nodes (handleBatchUpdateNotes (committed_batch ns (dragOverrides s)) ns)
                   (notesEffect ?s2))
           = set (render_nodes ns s)"
    unfolding render_nodes_def cleared using render_after_store by blast
  with same cleared show ?thesis by (simp add: render_nodes_def)
qed

theorem drag_commit_two_phase_clear_witness:
  "activeDragIds (initial_state\<lparr>activeDragIds := [''a''],
        dragOverrides := [(''a'', \<lparr>pt_x = 30, pt_y = 40\<rparr>)],
        dragStartOffsets := [(''a'', \<lparr>off_dx = 10, off_dy = 10\<rparr>)], isDraggingRef := True\<rparr>) \<noteq> []
   \<and> find_note [sample_note ''a'' 0 0 [''b''], sample_note ''b'' 100 0 []] ''a'' \<noteq> None
   \<and> list_all (\<lambda>ev. \<not> is_node_pointer_down ev)
         [PointerMove (pointer_at 70 70 False), Wheel 1, KeyDown None ''Escape'']
   \<and> render_nodes [sample_note ''a'' 0 0 [''b''], sample_note ''b'' 100 0 []]
       (run surface600 [sample_note ''a'' 0 0 [''b''], sample_note ''b'' 100 0 []]
          [PointerMove (pointer_at 70 70 False), Wheel 1, KeyDown None ''Escape'']
          (fst (dispatch surface600 [sample_note ''a'' 0 0 [''b''], sample_note ''b'' 100 0 []]
             (PointerUp (pointer_at 40 50 False))
             (initial_state\<lparr>activeDragIds := [''a''],
                dragOverrides := [(''a'', \<lparr>pt_x = 30, pt_y = 40\<rparr>)],
                dragStartOffsets := [(''a'', \<lparr>off_dx = 10, off_dy = 10\<rparr>)],
                isDraggingRef := True\<rparr>))))
     = [\<lparr>node_key = ''b'', node_tx = 100, node_ty = 0\<rparr>,
        \<lparr>node_key = ''a'', node_tx = 30, node_ty = 40\<rparr>]
   \<and> set (render_nodes
        (handleBatchUpdateNotes [sample_note ''a'' 30 40 [''b'']]
           [sample_note ''a'' 0 0 [''b''], sample_note ''b'' 100 0 []])
        (notesEffect
          (run surface600 [sample_note ''a'' 0 0 [''b''], sample_note ''b'' 100 0 []]
             [PointerMove (pointer_at 70 70 False), Wheel 1, KeyDown None ''Escape'']
             (fst (dispatch surface600 [sample_note ''a'' 0 0 [''b''], sample_note ''b'' 100 0 []]
                (PointerUp (pointer_at 40 50 False))
                (initial_state\<lparr>activeDragIds := [''a''],
                   dragOverrides := [(''a'', \<lparr>pt_x = 30, pt_y = 40\<rparr>)],
                   dragStartOffsets := [(''a'', \<lparr>off_dx = 10, off_dy = 10\<rparr>)],
                   isDraggingRef := True\<rparr>))))))
     = {\<lparr>node_key = ''b'', node_tx = 100, node_ty = 0\<rparr>,
        \<lparr>node_key = ''a'', node_tx = 30, node_ty = 40\<rparr>}"
proof -
  let ?ns = "[sample_note ''a'' 0 0 [''b''], sample_note ''b'' 100 0 []]"
  let ?evs = "[PointerMove (pointer_at 70 70 False), Wheel 1, KeyDown None ''Escape'']"
  let ?s = "initial_state\<lparr>activeDragIds := [''a''],
        dragOverrides := [(''a'', \<lparr>pt_x = 30, pt_y = 40\<rparr>)],
        dragStartOffsets := [(''a'', \<lparr>off_dx = 10, off_dy = 10\<rparr>)], isDraggingRef := True\<rparr>"
  have h1: "activeDragIds ?s \<noteq> []" by simp
  have f: "find_note ?ns ''a'' \<noteq> None" by (simp add: find_note_def sample_note_def)
  then have h2: "\<exists>ip \<in> set (dragOverrides ?s). find_note ?ns (fst ip) \<noteq> None" by simp
  have h3: "\<forall>ev \<in> set ?evs. \<not> is_node_pointer_down ev" by simp
  have wf: "distinct (map fst (dragOverrides ?s))
            \<and> set (map fst (dragOverrides ?s)) = set (activeDragIds ?s)" by simp
  have r: "render_nodes ?ns ?s = [\<lparr>node_key = ''b'', node_tx = 100, node_ty = 0\<rparr>,
        \<lparr>node_key = ''a'', node_tx = 30, node_ty = 40\<rparr>]"
    by (simp add: render_nodes_def StaticNodesLayer_def DynamicNodesLayer_def sample_note_def)
  have b: "committed_batch ?ns (dragOverrides ?s) = [sample_note ''a'' 30 40 [''b'']]"
    by (simp add: committed_batch_def find_note_def sample_note_def moved_to_def)
  note t = drag_commit_two_phase_clear [OF h1 h2 h3, of surface600 "pointer_at 40 50 False"]
  from t have "render_nodes ?ns (run surface600 ?ns ?evs
                 (fst (dispatch surface600 ?ns (PointerUp (pointer_at 40 50 False)) ?s)))
               = render_nodes ?ns ?s"
    by blast
  moreover from t wf
  have "set (render_nodes (handleBatchUpdateNotes (committed_batch ?ns (dragOverrides ?s)) ?ns)
               (notesEffect (run surface600 ?ns ?evs
                  (fst (dispatch surface600 ?ns (PointerUp (pointer_at 40 50 False)) ?s)))))
        = set (render_nodes ?ns ?s)"
    by blast
  ultimately show ?thesis
    using h1 f h3 unfolding b r by (simp add: list_all_iff)
qed

section \<open>Link toggle in Connect mode\<close>

lemma find_note_batch_single:
  "find_note ns (note_id u) = Some src \<Longrightarrow>
   find_note (handleBatchUpdateNotes [u] ns) (note_id u) = Some u"
  by (induction ns) (auto simp add: find_note_def handleBatchUpdateNotes_def)

lemma connect_toggle_step:
  assumes "mode s = CONNECT" and "linkSourceId s = Some a" and "a \<noteq> []"
    and "find_note ns a = Some src" and "note_id n \<noteq> a"
  shows "handleNodePointerDown d ns e n s
          = (s\<lparr>wasNodeSelectedRef := (note_id n \<in> set (selectedNodeIds s)), linkSourceId := None\<rparr>,
             [UpdateNotes [src\<lparr>note_links := toggled_links (note_id n) (note_links src)\<rparr>]])"
  using assms by (auto simp add: handleNodePointerDown_def truthy_def toggled_links_def Let_def)

lemma connect_arm_step:
  assumes "mode s = CONNECT" and "\<not> truthy (linkSourceId s) \<or> linkSourceId s = Some (note_id n)"
  shows "handleNodePointerDown d ns e n s
          = (s\<lparr>wasNodeSelectedRef := (note_id n \<in> set (selectedNodeIds s)),
                linkSourceId := Some (note_id n)\<rparr>, [])"
  using assms by (auto simp add: handleNodePointerDown_def Let_def)

lemma connect_pair_settled:
  assumes m: "mode s = CONNECT"
    and un: "\<not> truthy (linkSourceId s) \<or> linkSourceId s = Some (note_id na)"
    and a: "note_id na \<noteq> []" and f: "find_note ns (note_id na) = Some src"
    and ab: "note_id nb \<noteq> note_id na"
  shows "node_down_settled d e nb (node_down_settled d e na (ns, s))
     = (handleBatchUpdateNotes [src\<lparr>note_links := toggled_links (note_id nb) (note_links src)\<rparr>] ns,
        notesEffect (s\<lparr>wasNodeSelectedRef := (note_id nb \<in> set (selectedNodeIds s)),
                       linkSourceId := None\<rparr>))"
proof -
  let ?s1 = "s\<lparr>wasNodeSelectedRef := (note_id na \<in> set (selectedNodeIds s)),
                linkSourceId := Some (note_id na)\<rparr>"
  have 1: "node_down_settled d e na (ns, s) = (ns, ?s1)"
    using connect_arm_step [of s na d ns e] m un by (simp add: node_down_settled_def)
  have "handleNodePointerDown d ns e nb ?s1
          = (?s1\<lparr>wasNodeSelectedRef := (note_id nb \<in> set (selectedNodeIds ?s1)), linkSourceId := None\<rparr>,
             [UpdateNotes [src\<lparr>note_links := toggled_links (note_id nb) (note_links src)\<rparr>]])"
    by (rule connect_toggle_step) (use m a f ab in simp_all)
  then show ?thesis
    unfolding 1 by (simp add: node_down_settled_def)
qed

text \<open>
  Claim C4. In Connect mode with the link-source armed at the identifier \<open>a\<close> of a present
  note (\<open>src\<close> is the snapshot the list holds for \<open>a\<close>; an armed link-source is a non-empty
  identifier): a pointer-down on a node with another identifier makes exactly one call, a
  batch update holding \<open>src\<close> alone with that identifier removed from its adjacency list if it
  was there and appended otherwise, and clears the link-source; a pointer-down on the node
  \<open>a\<close> itself makes no call and leaves the link-source armed; and when the adjacency of \<open>a\<close> is
  empty, choosing \<open>a\<close> then \<open>b\<close> puts \<open>b\<close> into it and choosing \<open>a\<close> then \<open>b\<close> once more gives back
  the snapshot with the empty adjacency, the store applying each batch in between.
\<close>

theorem connect_link_toggle:
  assumes "mode s = CONNECT" and "linkSourceId s = Some a" and "a \<noteq> []"
    and "find_note ns a = Some src"
  shows "(note_id nb \<noteq> a \<longrightarrow>
            dispatch d ns (NodePointerDown e nb) s
              = (s\<lparr>wasNodeSelectedRef := (note_id nb \<in> set (selectedNodeIds s)),
                    linkSourceId := None\<rparr>,
                 [UpdateNotes [src\<lparr>note_links := toggled_links (note_id nb) (note_links src)\<rparr>]]))
    \<and> (note_id na = a \<longrightarrow>
            dispatch d ns (NodePointerDown e na) s
              = (s\<lparr>wasNodeSelectedRef := (a \<in> set (selectedNodeIds s))\<rparr>, []))
    \<and> (note_id na = a \<and> note_id nb \<noteq> a \<and> note_links src = [] \<longrightarrow>
          find_note (fst (node_down_settled d e nb (node_down_settled d e na (ns, s)))) a
            = Some (src\<lparr>note_links := [note_id nb]\<rparr>)
          \<and> linkSourceId (snd (node_down_settled d e nb (node_down_settled d e na (ns, s)))) = None
          \<and> find_note (fst (node_down_settled d e nb (node_down_settled d e na
                (node_down_settled d e nb (node_down_settled d e na (ns, s)))))) a
            = Some src
          \<and> linkSourceId (snd (node_down_settled d e nb (node_down_settled d e na
                (node_down_settled d e nb (node_down_settled d e na (ns, s)))))) = None)"
proof (intro conjI impI)
  assume "note_id nb \<noteq> a"
  then show "dispatch d ns (NodePointerDown e nb) s
              = (s\<lparr>wasNodeSelectedRef := (note_id nb \<in> set (selectedNodeIds s)),
                    linkSourceId := None\<rparr>,
                 [UpdateNotes [src\<lparr>note_links := toggled_links (note_id nb) (note_links src)\<rparr>]])"
    using connect_toggle_step [OF assms, of nb d e] by simp
next
  assume "note_id na = a"
  then show "dispatch d ns (NodePointerDown e na) s
              = (s\<lparr>wasNodeSelectedRef := (a \<in> set (selectedNodeIds s))\<rparr>, [])"
    using connect_arm_step [of s na d ns e] assms by simp
next
  assume h: "note_id na = a \<and> note_id nb \<noteq> a \<and> note_links src = []"
  let ?u = "src\<lparr>note_links := [note_id nb]\<rparr>"
  let ?ns1 = "handleBatchUpdateNotes [?u] ns"
  let ?s1 = "notesEffect (s\<lparr>wasNodeSelectedRef := (note_id nb \<in> set (selectedNodeIds s)),
                       linkSourceId := None\<rparr>)"
  let ?s2 = "notesEffect (?s1\<lparr>wasNodeSelectedRef := (note_id nb \<in> set (selectedNodeIds ?s1)),
                       linkSourceId := None\<rparr>)"
  have ida: "note_id src = a" using assms(4) by (rule find_note_id)
  have "node_down_settled d e nb (node_down_settled d e na (ns, s))
          = (handleBatchUpdateNotes [src\<lparr>note_links := toggled_links (note_id nb) (note_links src)\<rparr>] ns,
             ?s1)"
    by (rule connect_pair_settled) (use h assms in simp_all)
  then have st1: "node_down_settled d e nb (node_down_settled d e na (ns, s)) = (?ns1, ?s1)"
    using h by (simp add: toggled_links_def)
  have f1: "find_note ?ns1 a = Some ?u"
    using find_note_batch_single [of ns ?u src] assms(4) ida by simp
  have m1: "mode ?s1 = CONNECT" and l1: "\<not> truthy (linkSourceId ?s1)"
    using assms(1) by (simp_all add: notesEffect_def truthy_def)
  have "node_down_settled d e nb (node_down_settled d e na (?ns1, ?s1))
     = (handleBatchUpdateNotes [?u\<lparr>note_links := toggled_links (note_id nb) (note_links ?u)\<rparr>] ?ns1,
        ?s2)"
    by (rule connect_pair_settled) (use m1 l1 h assms(3) f1 in simp_all)
  moreover have "?u\<lparr>note_links := toggled_links (note_id nb) (note_links ?u)\<rparr> = src"
    using h by (simp add: toggled_links_def)
  ultimately
  have st2: "node_down_settled d e nb (node_down_settled d e na (?ns1, ?s1))
               = (handleBatchUpdateNotes [src] ?ns1, ?s2)"
    by simp
  have f2: "find_note (handleBatchUpdateNotes [src] ?ns1) a = Some src"
    using find_note_batch_single [of ?ns1 src ?u] f1 ida by simp
  have l2: "linkSourceId ?s1 = None" "linkSourceId ?s2 = None"
    by (simp_all add: notesEffect_def)
  show "find_note (fst (node_down_settled d e nb (node_down_settled d e na (ns, s)))) a
            = Some (src\<lparr>note_links := [note_id nb]\<rparr>)"
    unfolding st1 using f1 by simp
  show "linkSourceId (snd (node_down_settled d e nb (node_down_settled d e na (ns, s)))) = None"
    unfolding st1 using l2 by simp
  show "find_note (fst (node_down_settled d e nb (node_down_settled d e na
                (node_down_settled d e nb (node_down_settled d e na (ns, s)))))) a
            = Some src"
    unfolding st1 st2 using f2 by simp
  show "linkSourceId (snd (node_down_settled d e nb (node_down_settled d e na
                (node_down_settled d e nb (node_down_settled d e na (ns, s)))))) = None"
    unfolding st1 st2 using l2 by simp
qed

theorem connect_link_toggle_witness:
  "mode (initial_state\<lparr>mode := CONNECT, linkSourceId := Some ''a''\<rparr>) = CONNECT
   \<and> find_note [sample_note ''a'' 0 0 [], sample_note ''b'' 100 0 []] ''a''
       = Some (sample_note ''a'' 0 0 [])
   \<and> snd (dispatch surface600 [sample_note ''a'' 0 0 [], sample_note ''b'' 100 0 []]
        (NodePointerDown (pointer_at 100 0 False) (sample_note ''b'' 100 0 []))
        (initial_state\<lparr>mode := CONNECT, linkSourceId := Some ''a''\<rparr>))
       = [UpdateNotes [sample_note ''a'' 0 0 [''b'']]]
   \<and> find_note
        (fst (node_down_settled surface600 (pointer_at 0 0 False) (sample_note ''b'' 100 0 [])
          (node_down_settled surface600 (pointer_at 0 0 False) (sample_note ''a'' 0 0 [])
            (node_down_settled surface600 (pointer_at 0 0 False) (sample_note ''b'' 100 0 [])
              (node_down_settled surface600 (pointer_at 0 0 False) (sample_note ''a'' 0 0 [])
                ([sample_note ''a'' 0 0 [], sample_note ''b'' 100 0 []],
                 initial_state\<lparr>mode := CONNECT, linkSourceId := Some ''a''\<rparr>))))))
        ''a''
       = Some (sample_note ''a'' 0 0 [])"
proof -
  let ?a = "sample_note ''a'' 0 0 []"
  let ?b = "sample_note ''b'' 100 0 []"
  let ?s = "initial_state\<lparr>mode := CONNECT, linkSourceId := Some ''a''\<rparr>"
  have h1: "mode ?s = CONNECT" and h2: "linkSourceId ?s = Some ''a''" and h3: "''a'' \<noteq> []"
    by simp_all
  have h4: "find_note [?a, ?b] ''a'' = Some ?a"
    by (simp add: find_note_def sample_note_def)
  have ids: "note_id ?b \<noteq> ''a''" "note_id ?a = ''a''" "note_links ?a = []"
    by (simp_all add: sample_note_def)
  have tl: "?a\<lparr>note_links := toggled_links (note_id ?b) (note_links ?a)\<rparr> = sample_note ''a'' 0 0 [''b'']"
    by (simp add: toggled_links_def sample_note_def)
  note t = connect_link_toggle [OF h1 h2 h3 h4, where nb = ?b and na = ?a and d = surface600]
  from t [of "pointer_at 100 0 False"] ids(1)
  have "snd (dispatch surface600 [?a, ?b] (NodePointerDown (pointer_at 100 0 False) ?b) ?s)
          = [UpdateNotes [?a\<lparr>note_links := toggled_links (note_id ?b) (note_links ?a)\<rparr>]]"
    by simp
  then have "snd (dispatch surface600 [?a, ?b] (NodePointerDown (pointer_at 100 0 False) ?b) ?s)
          = [UpdateNotes [sample_note ''a'' 0 0 [''b'']]]"
    by (simp only: tl)
  moreover from t [of "pointer_at 0 0 False"] ids
  have "find_note
        (fst (node_down_settled surface600 (pointer_at 0 0 False) ?b
          (node_down_settled surface600 (pointer_at 0 0 False) ?a
            (node_down_settled surface600 (pointer_at 0 0 False) ?b
              (node_down_settled surface600 (pointer_at 0 0 False) ?a ([?a, ?b], ?s))))))
        ''a'' = Some ?a"
    by blast
  ultimately show ?thesis using h1 h4 by blast
qed

section \<open>Click on a node\<close>

lemma hypot_origin: "hypot 0 0 < 5"
  by (simp add: hypot_def)

text \<open>
  Claim C8 reads: on a pointer-up over a node within 5 device pixels of the pointer-down and
  not in Connect mode, for a node that was part of a selection of more than one node before
  the gesture, the additive modifier removes the node from the selection, and without it the
  selection stays and the bulk-action menu opens at the node. The handler written for this,
  \<^verbatim>\<open>handleNodePointerUp\<close>, is attached to no element, so a pointer-up over a node runs
  \<^verbatim>\<open>handlePointerUp\<close> alone. With \<open>a\<close> and \<open>b\<close> selected, a click on \<open>a\<close> without the modifier
  leaves the menu closed, and a click with the modifier leaves \<open>a\<close> selected; had
  \<^verbatim>\<open>handleNodePointerUp\<close> run on the same pointer-up it would have opened the menu, and
  removed \<open>a\<close> under the modifier.
\<close>

theorem node_click_runs_no_click_logic:
  "selectionMenuPos
     (run surface600 click_notes
        [NodePointerDown (pointer_at 0 0 False) (sample_note ''a'' 0 0 []),
         PointerUp (pointer_at 0 0 False)]
        (initial_state\<lparr>selectedNodeIds := [''a'', ''b'']\<rparr>)) = None
   \<and> selectedNodeIds
     (run surface600 click_notes
        [NodePointerDown (pointer_at 0 0 True) (sample_note ''a'' 0 0 []),
         PointerUp (pointer_at 0 0 True)]
        (initial_state\<lparr>selectedNodeIds := [''a'', ''b'']\<rparr>)) = [''a'', ''b'']
   \<and> selectionMenuPos
     (handleNodePointerUp surface600 click_notes (pointer_at 0 0 False) ''a''
        (run surface600 click_notes
           [NodePointerDown (pointer_at 0 0 False) (sample_note ''a'' 0 0 [])]
           (initial_state\<lparr>selectedNodeIds := [''a'', ''b'']\<rparr>))) = Some \<lparr>pt_x = 0, pt_y = 0\<rparr>
   \<and> selectedNodeIds
     (handleNodePointerUp surface600 click_notes (pointer_at 0 0 True) ''a''
        (run surface600 click_notes
           [NodePointerDown (pointer_at 0 0 True) (sample_note ''a'' 0 0 [])]
           (initial_state\<lparr>selectedNodeIds := [''a'', ''b'']\<rparr>))) = [''b'']"
  by (simp add: run_def handlePointerUp_def handleNodePointerDown_def handleNodePointerUp_def
      click_notes_def initial_state_def sample_note_def pointer_at_def find_note_def
      capture_step_def set_add_def set_delete_def getPointerPosition_def surface600_def
      toScreenCoords_def commit_updates_def commit_step_def hypot_origin Let_def)

section \<open>Connection layers\<close>

subsection \<open>The layers as one pass over the links\<close>

lemma fold_nested_pairs:
  "fold (\<lambda>s acc. fold (f s) (note_links s) acc) ns acc0
     = fold (\<lambda>p. f (fst p) (snd p)) (link_pairs ns) acc0"
proof (induction ns arbitrary: acc0)
  case Nil
  then show ?case by (simp add: link_pairs_def)
next
  case (Cons s ns)
  have "fold (\<lambda>p. f (fst p) (snd p)) (map (Pair s) ls) acc = fold (f s) ls acc" for ls acc
    by (induction ls arbitrary: acc) simp_all
  with Cons show ?case by (simp add: link_pairs_def)
qed

lemma fold_guarded:
  "fold (\<lambda>p acc. if Q p then f p acc else acc) ps acc0 = fold f (filter Q ps) acc0"
  by (induction ps arbitrary: acc0) simp_all

lemma count_dedup:
  assumes "\<And>p e. e \<in> set (g p) \<Longrightarrow> edge_key e = pair_key p"
  shows "length (filter (\<lambda>e. edge_key e = k) (snd (fold (dedup_step g) ps (proc, els))))
     = length (filter (\<lambda>e. edge_key e = k) els)
       + (if k \<in> set proc then 0
          else case List.find (\<lambda>p. pair_key p = k) ps of None \<Rightarrow> 0 | Some p \<Rightarrow> length (g p))"
proof (induction ps arbitrary: proc els)
  case Nil
  then show ?case by simp
next
  case (Cons p ps)
  show ?case
  proof (cases "pair_key p \<in> set proc")
    case True
    then have "dedup_step g p (proc, els) = (proc, els)" by (simp add: dedup_step_def)
    with True Cons.IH [of proc els] show ?thesis by auto
  next
    case False
    then have st: "dedup_step g p (proc, els) = (set_add (pair_key p) proc, els @ g p)"
      by (simp add: dedup_step_def)
    have g: "length (filter (\<lambda>e. edge_key e = k) (g p)) = (if pair_key p = k then length (g p) else 0)"
      using assms [of _ p] by (auto simp add: filter_empty_conv filter_id_conv)
    from False have sa: "set (set_add (pair_key p) proc) = insert (pair_key p) (set proc)"
      by (simp add: set_add_def)
    show ?thesis
      using Cons.IH [of "set_add (pair_key p) proc" "els @ g p"] False
      by (auto simp add: st sa g)
  qed
qed

lemma static_conn_step_dedup:
  "static_conn_step ns act (fst p) (snd p) = dedup_step (static_edge ns act) p"
  by (rule ext)
     (simp add: static_conn_step_def dedup_step_def static_edge_def pair_key_def Let_def
        split: option.splits)

lemma dynamic_conn_step_dedup:
  "dynamic_conn_step ns ov act (fst p) (snd p)
     = (\<lambda>acc. if dynamic_guard ns act p then dedup_step (dynamic_edge ns ov) p acc else acc)"
  by (rule ext)
     (auto simp add: dynamic_conn_step_def dedup_step_def dynamic_guard_def dynamic_edge_def
        pair_key_def Let_def split: option.splits)

lemma StaticConnectionsLayer_dedup:
  "StaticConnectionsLayer ns act
     = snd (fold (dedup_step (static_edge ns act)) (link_pairs ns) ([], []))"
  unfolding StaticConnectionsLayer_def
  by (simp only: fold_nested_pairs static_conn_step_dedup)

lemma DynamicConnectionsLayer_dedup:
  "DynamicConnectionsLayer ns ov act
     = (if act = [] then []
        else snd (fold (dedup_step (dynamic_edge ns ov))
                    (filter (dynamic_guard ns act) (link_pairs ns)) ([], [])))"
  unfolding DynamicConnectionsLayer_def
  by (simp only: fold_nested_pairs dynamic_conn_step_dedup fold_guarded)

lemma dedup_elements:
  "e \<in> set (snd (fold (dedup_step g) ps acc)) \<Longrightarrow>
   e \<in> set (snd acc) \<or> (\<exists>p \<in> set ps. e \<in> set (g p))"
proof (induction ps arbitrary: acc)
  case Nil
  then show ?case by simp
next
  case (Cons p ps)
  from Cons.IH [of "dedup_step g p acc"] Cons.prems
  have "e \<in> set (snd (dedup_step g p acc)) \<or> (\<exists>q \<in> set ps. e \<in> set (g q))"
    by simp
  then show ?case by (auto simp add: dedup_step_def split: if_splits)
qed

lemma getLinkKey_commute: "getLinkKey a b = getLinkKey b a"
  by (auto simp add: getLinkKey_def)

lemma getLinkKey_doubleton: "{a, b} = {c, d} \<Longrightarrow> getLinkKey a b = getLinkKey c d"
  using getLinkKey_commute by (auto simp add: doubleton_eq_iff)

lemma find_note_present:
  "i \<in> note_id ` set ns \<Longrightarrow> \<exists>n. find_note ns i = Some n \<and> note_id n = i"
  by (cases "find_note ns i") (auto simp add: find_note_def find_None_iff find_Some_iff)

lemma set_link_pairs:
  "set (link_pairs ns) = {p. fst p \<in> set ns \<and> snd p \<in> set (note_links (fst p))}"
  by (auto simp add: link_pairs_def)

lemma static_edge_key: "e \<in> set (static_edge ns act p) \<Longrightarrow> edge_key e = pair_key p"
  by (auto simp add: static_edge_def split: option.splits if_splits)

lemma dynamic_edge_key: "e \<in> set (dynamic_edge ns ov p) \<Longrightarrow> edge_key e = pair_key p"
  by (simp add: dynamic_edge_def)

lemma static_edge_ends:
  "e \<in> set (static_edge ns act p) \<Longrightarrow> edge_source e = note_id (fst p) \<and> edge_target e = snd p"
  by (auto simp add: static_edge_def split: option.splits if_splits)

lemma dynamic_edge_ends:
  "e \<in> set (dynamic_edge ns ov p) \<Longrightarrow> edge_source e = note_id (fst p) \<and> edge_target e = snd p"
  by (simp add: dynamic_edge_def)

lemma find_filter_Some:
  "p \<in> set ps \<Longrightarrow> Q p \<Longrightarrow> G p \<Longrightarrow>
   \<exists>q. List.find Q (filter G ps) = Some q \<and> Q q \<and> G q \<and> q \<in> set ps"
  by (induction ps) auto

lemma count_static_edges:
  "length (filter (\<lambda>e. edge_key e = k)
             (snd (fold (dedup_step (static_edge ns act)) ps ([], []))))
     = (case List.find (\<lambda>p. pair_key p = k) ps of
          None \<Rightarrow> 0
        | Some p \<Rightarrow> length (static_edge ns act p))"
proof -
  have key: "\<And>p e. e \<in> set (static_edge ns act p) \<Longrightarrow> edge_key e = pair_key p"
    by (rule static_edge_key)
  from count_dedup [of "static_edge ns act" k ps "[]" "[]", OF key] show ?thesis by simp
qed

lemma count_dynamic_edges:
  "length (filter (\<lambda>e. edge_key e = k)
             (snd (fold (dedup_step (dynamic_edge ns ov)) ps ([], []))))
     = (case List.find (\<lambda>p. pair_key p = k) ps of None \<Rightarrow> 0 | Some p \<Rightarrow> 1)"
proof -
  have key: "\<And>p e. e \<in> set (dynamic_edge ns ov p) \<Longrightarrow> edge_key e = pair_key p"
    by (rule dynamic_edge_key)
  have "length (dynamic_edge ns ov p) = 1" for p by (simp add: dynamic_edge_def)
  with count_dedup [of "dynamic_edge ns ov" k ps "[]" "[]", OF key]
  show ?thesis by (simp split: option.splits)
qed

subsection \<open>One edge element for a linked pair, unless keys clash\<close>

text \<open>
  When both notes are present, and no link of the list between other end points has the
  key of the pair, the two connection layers together hold exactly one element drawn
  between \<open>A\<close> and \<open>B\<close>, whichever way round the link is stored and whatever is being dragged.
\<close>

lemma edge_rendered_once_unless_keys_clash:
  assumes pa: "A \<in> note_id ` set ns" and pb: "B \<in> note_id ` set ns"
    and link: "\<exists>n \<in> set ns. \<exists>t \<in> set (note_links n). {note_id n, t} = {A, B}"
    and inj: "\<forall>n \<in> set ns. \<forall>t \<in> set (note_links n).
                 getLinkKey (note_id n) t = getLinkKey A B \<longrightarrow> {note_id n, t} = {A, B}"
  shows "length (filter (\<lambda>e. {edge_source e, edge_target e} = {A, B}) (render_connections ns s)) = 1"
proof -
  let ?k = "getLinkKey A B"
  let ?act = "activeDragIds s"
  let ?ov = "dragOverrides s"
  let ?ps = "link_pairs ns"
  let ?P = "\<lambda>e. {edge_source e, edge_target e} = {A, B}"
  let ?K = "\<lambda>e. edge_key e = ?k"
  let ?drag = "A \<in> set ?act \<or> B \<in> set ?act"
  have pairs: "pair_key p = ?k \<longleftrightarrow> {note_id (fst p), snd p} = {A, B}" if "p \<in> set ?ps" for p
    using that inj getLinkKey_doubleton [of "note_id (fst p)" "snd p" A B]
    by (auto simp add: set_link_pairs pair_key_def)
  obtain p0 where p0: "p0 \<in> set ?ps" "pair_key p0 = ?k"
    using link pairs by (fastforce simp add: set_link_pairs)
  have guard: "dynamic_guard ns ?act p \<longleftrightarrow> ?drag" if "p \<in> set ?ps" "pair_key p = ?k" for p
  proof -
    from that pairs have e: "{note_id (fst p), snd p} = {A, B}" by simp
    then have "snd p \<in> note_id ` set ns" using pa pb by (auto simp add: doubleton_eq_iff)
    then have "find_note ns (snd p) \<noteq> None" using find_note_present by fastforce
    moreover from e have "note_id (fst p) \<in> set ?act \<or> snd p \<in> set ?act \<longleftrightarrow> ?drag"
      by (auto simp add: doubleton_eq_iff)
    ultimately show ?thesis by (simp add: dynamic_guard_def)
  qed
  have stat: "length (static_edge ns ?act p) = (if ?drag then 0 else 1)"
    if "p \<in> set ?ps" "pair_key p = ?k" for p
  proof -
    from that pairs have e: "{note_id (fst p), snd p} = {A, B}" by simp
    then have "snd p \<in> note_id ` set ns" using pa pb by (auto simp add: doubleton_eq_iff)
    then obtain target where t: "find_note ns (snd p) = Some target" "note_id target = snd p"
      using find_note_present by blast
    moreover from e have "note_id (fst p) \<in> set ?act \<or> snd p \<in> set ?act \<longleftrightarrow> ?drag"
      by (auto simp add: doubleton_eq_iff)
    ultimately show ?thesis by (simp add: static_edge_def)
  qed
  have sP: "filter ?P (StaticConnectionsLayer ns ?act) = filter ?K (StaticConnectionsLayer ns ?act)"
  proof (rule filter_cong [OF refl])
    fix e assume "e \<in> set (StaticConnectionsLayer ns ?act)"
    then obtain p where "p \<in> set ?ps" "e \<in> set (static_edge ns ?act p)"
      using dedup_elements [of e "static_edge ns ?act" ?ps "([], [])"]
      by (auto simp add: StaticConnectionsLayer_dedup)
    then show "?P e \<longleftrightarrow> ?K e"
      using pairs [of p] static_edge_key [of e ns ?act p] static_edge_ends [of e ns ?act p] by simp
  qed
  obtain q where q: "List.find (\<lambda>p. pair_key p = ?k) ?ps = Some q" "pair_key q = ?k" "q \<in> set ?ps"
    using find_filter_Some [of p0 ?ps "\<lambda>p. pair_key p = ?k" "\<lambda>_. True"] p0 by auto
  have "length (filter ?K (StaticConnectionsLayer ns ?act)) = length (static_edge ns ?act q)"
    unfolding StaticConnectionsLayer_dedup count_static_edges using q(1) by simp
  with stat [OF q(3) q(2)] sP
  have s: "length (filter ?P (StaticConnectionsLayer ns ?act)) = (if ?drag then 0 else 1)"
    by simp
  have dP: "filter ?P (DynamicConnectionsLayer ns ?ov ?act) = filter ?K (DynamicConnectionsLayer ns ?ov ?act)"
  proof (rule filter_cong [OF refl])
    fix e assume "e \<in> set (DynamicConnectionsLayer ns ?ov ?act)"
    then obtain p where "p \<in> set ?ps" "e \<in> set (dynamic_edge ns ?ov p)"
      using dedup_elements [of e "dynamic_edge ns ?ov" "filter (dynamic_guard ns ?act) ?ps" "([], [])"]
      by (auto simp add: DynamicConnectionsLayer_dedup split: if_splits)
    then show "?P e \<longleftrightarrow> ?K e"
      using pairs [of p] dynamic_edge_key [of e ns ?ov p] dynamic_edge_ends [of e ns ?ov p] by simp
  qed
  have d: "length (filter ?K (DynamicConnectionsLayer ns ?ov ?act)) = (if ?drag then 1 else 0)"
  proof (cases ?drag)
    case True
    then have ne: "?act \<noteq> []" by auto
    from True guard [OF p0] have "dynamic_guard ns ?act p0" by simp
    with p0 obtain r where "List.find (\<lambda>p. pair_key p = ?k) (filter (dynamic_guard ns ?act) ?ps) = Some r"
      using find_filter_Some [of p0 ?ps "\<lambda>p. pair_key p = ?k" "dynamic_guard ns ?act"] by auto
    with True ne show ?thesis
      by (simp add: DynamicConnectionsLayer_dedup count_dynamic_edges)
  next
    case False
    have "List.find (\<lambda>p. pair_key p = ?k) (filter (dynamic_guard ns ?act) ?ps) = None"
      using guard False by (auto simp add: find_None_iff)
    then have "length (filter ?K (snd (fold (dedup_step (dynamic_edge ns ?ov))
                   (filter (dynamic_guard ns ?act) ?ps) ([], [])))) = 0"
      by (simp only: count_dynamic_edges option.case)
    with False show ?thesis
      by (cases "?act = []") (simp_all add: DynamicConnectionsLayer_dedup)
  qed
  from s d dP show ?thesis
    by (simp add: render_connections_def)
qed

lemma getLinkKey_inj_same_length:
  assumes "length a = l" and "length b = l" and "length c = l" and "length d = l"
    and "getLinkKey a b = getLinkKey c d"
  shows "{a, b} = {c, d}"
  using assms by (auto simp add: getLinkKey_def split: if_splits)

lemma getLinkKey_inj_no_dash:
  assumes "CHR ''-'' \<notin> set a" and "CHR ''-'' \<notin> set b" and "CHR ''-'' \<notin> set c"
    and "CHR ''-'' \<notin> set d" and "getLinkKey a b = getLinkKey c d"
  shows "{a, b} = {c, d}"
  using assms by (auto simp add: getLinkKey_def append_Cons_eq_iff split: if_splits)

text \<open>
  Keys cannot clash when all identifiers have one length, as the identifiers the
  application itself creates (\<^verbatim>\<open>crypto.randomUUID()\<close>) have, or when no identifier holds the
  separator.
\<close>

lemma edge_rendered_once_same_length_ids:
  assumes pa: "A \<in> note_id ` set ns" and pb: "B \<in> note_id ` set ns"
    and link: "\<exists>n \<in> set ns. \<exists>t \<in> set (note_links n). {note_id n, t} = {A, B}"
    and len: "\<forall>n \<in> set ns. length (note_id n) = l \<and> (\<forall>t \<in> set (note_links n). length t = l)"
  shows "length (filter (\<lambda>e. {edge_source e, edge_target e} = {A, B}) (render_connections ns s)) = 1"
proof (rule edge_rendered_once_unless_keys_clash [OF pa pb link], intro ballI impI)
  fix n t
  assume "n \<in> set ns" and "t \<in> set (note_links n)"
    and "getLinkKey (note_id n) t = getLinkKey A B"
  moreover from pa pb len have "length A = l" and "length B = l" by auto
  ultimately show "{note_id n, t} = {A, B}"
    using len by (intro getLinkKey_inj_same_length [of _ l]) auto
qed

lemma edge_rendered_once_ids_without_dash:
  assumes pa: "A \<in> note_id ` set ns" and pb: "B \<in> note_id ` set ns"
    and link: "\<exists>n \<in> set ns. \<exists>t \<in> set (note_links n). {note_id n, t} = {A, B}"
    and nd: "\<forall>n \<in> set ns. CHR ''-'' \<notin> set (note_id n)
               \<and> (\<forall>t \<in> set (note_links n). CHR ''-'' \<notin> set t)"
  shows "length (filter (\<lambda>e. {edge_source e, edge_target e} = {A, B}) (render_connections ns s)) = 1"
proof (rule edge_rendered_once_unless_keys_clash [OF pa pb link], intro ballI impI)
  fix n t
  assume "n \<in> set ns" and "t \<in> set (note_links n)"
    and "getLinkKey (note_id n) t = getLinkKey A B"
  moreover from pa pb nd have "CHR ''-'' \<notin> set A" and "CHR ''-'' \<notin> set B" by auto
  ultimately show "{note_id n, t} = {A, B}"
    using nd by (intro getLinkKey_inj_no_dash) auto
qed

subsection \<open>A clash of keys\<close>

text \<open>
  Claim C3 reads: for every notes list and every pair of distinct entities \<open>A\<close>, \<open>B\<close> linked
  one way, the other way or both, the two connection layers together hold exactly one edge
  element for the pair, whatever is being dragged. The key \<^verbatim>\<open>`${a}-${b}`\<close> does not
  determine the pair when an identifier holds the separator: in the list with the links
  \<open>a \<rightarrow> b-c\<close> and \<open>a-b \<rightarrow> c\<close>, all four notes present and nothing dragged, both links get the
  key \<open>a-b-c\<close>; one element is drawn, between \<open>a\<close> and \<open>b-c\<close>, and none between \<open>a-b\<close> and \<open>c\<close>.
\<close>

theorem edge_missing_on_key_clash:
  "map note_id clash_notes = [''a'', ''b-c'', ''a-b'', ''c'']
   \<and> map note_links clash_notes = [[''b-c''], [], [''c''], []]
   \<and> getLinkKey ''a'' ''b-c'' = getLinkKey ''a-b'' ''c''
   \<and> map (\<lambda>e. (edge_source e, edge_target e)) (render_connections clash_notes initial_state)
       = [(''a'', ''b-c'')]
   \<and> filter (\<lambda>e. {edge_source e, edge_target e} = {''a-b'', ''c''})
         (render_connections clash_notes initial_state) = []"
  by (simp add: render_connections_def StaticConnectionsLayer_def DynamicConnectionsLayer_def
      static_conn_step_def clash_notes_def sample_note_def getLinkKey_def find_note_def set_add_def
      initial_state_def doubleton_eq_iff Let_def)

end
